theory Spec2Isabelle
  imports Complex_Main "HOL-Library.Sublist"
begin

section \<open>Python strings\<close>

text \<open>
  Text is modelled as \<^typ>\<open>string\<close>, one \<^typ>\<open>char\<close> per code point, so a text of
  the model is a Python \<^verbatim>\<open>str\<close> of code points below 256 (Latin-1).  The functions
  below follow Python's \<^verbatim>\<open>str\<close> methods on such text.
\<close>

definition code :: "char \<Rightarrow> nat" where
  "code c = of_char c"

definition isspace :: "char \<Rightarrow> bool" where
  \<comment> \<open>\<^verbatim>\<open>str.isspace\<close>: TAB, LF, VT, FF, CR, the separators FS, GS, RS, US, the space,
     NEL (U+0085) and the no-break space (U+00A0).\<close>
  "isspace c \<longleftrightarrow> (9 \<le> code c \<and> code c \<le> 13) \<or> (28 \<le> code c \<and> code c \<le> 32)
     \<or> code c = 133 \<or> code c = 160"

definition isupper :: "char \<Rightarrow> bool" where
  \<comment> \<open>A to Z, and the capital letters U+00C0 to U+00DE without the sign U+00D7.\<close>
  "isupper c \<longleftrightarrow> (65 \<le> code c \<and> code c \<le> 90) \<or> (192 \<le> code c \<and> code c \<le> 214)
     \<or> (216 \<le> code c \<and> code c \<le> 222)"

definition islower :: "char \<Rightarrow> bool" where
  \<comment> \<open>a to z, the ordinal indicators U+00AA and U+00BA, the micro sign U+00B5, and the
     small letters U+00DF to U+00FF without the sign U+00F7.\<close>
  "islower c \<longleftrightarrow> (97 \<le> code c \<and> code c \<le> 122) \<or> code c = 170 \<or> code c = 181
     \<or> code c = 186 \<or> (223 \<le> code c \<and> code c \<le> 246) \<or> (248 \<le> code c \<and> code c \<le> 255)"

definition isdecimal :: "char \<Rightarrow> bool" where
  "isdecimal c \<longleftrightarrow> 48 \<le> code c \<and> code c \<le> 57"

definition lower_char :: "char \<Rightarrow> char" where
  "lower_char c = (if isupper c then char_of (code c + 32) else c)"

text \<open>
  The upper case of a character where it is again below 256: the micro sign, the sharp
  s and y with diaeresis (U+00B5, U+00DF, U+00FF) have none there, nor have the ordinal
  indicators.
\<close>

definition upper_char :: "char \<Rightarrow> char" where
  "upper_char c =
     (if (97 \<le> code c \<and> code c \<le> 122) \<or> (224 \<le> code c \<and> code c \<le> 246)
         \<or> (248 \<le> code c \<and> code c \<le> 254)
      then char_of (code c - 32) else c)"

text \<open>
  The characters whose title case is not a single character below 256: Python gives
  U+039C for the micro sign, \<open>Ss\<close> for the sharp s and U+0178 for y with diaeresis.
  \<open>title\<close> below keeps them, and every property that involves \<open>title\<close> is stated for
  texts without them.
\<close>

definition title_in_range :: "char \<Rightarrow> bool" where
  "title_in_range c \<longleftrightarrow> code c \<noteq> 181 \<and> code c \<noteq> 223 \<and> code c \<noteq> 255"

definition lower :: "string \<Rightarrow> string" where
  "lower s = map lower_char s"

definition strip :: "string \<Rightarrow> string" where
  "strip s = rev (dropWhile isspace (rev (dropWhile isspace s)))"

text \<open>\<^verbatim>\<open>s.split()\<close>: the maximal runs of non-whitespace characters, in order.\<close>

fun split_acc :: "string \<Rightarrow> string \<Rightarrow> string list" where
  "split_acc w [] = (if w = [] then [] else [rev w])"
| "split_acc w (c # cs) =
     (if isspace c then (if w = [] then split_acc [] cs else rev w # split_acc [] cs)
      else split_acc (c # w) cs)"

definition split :: "string \<Rightarrow> string list" where
  "split s = split_acc [] s"

text \<open>\<^verbatim>\<open>sep.join(ws)\<close>.\<close>

fun join :: "string \<Rightarrow> string list \<Rightarrow> string" where
  "join sep [] = []"
| "join sep [w] = w"
| "join sep (w # v # ws) = w @ sep @ join sep (v # ws)"

text \<open>\<^verbatim>\<open>s.split(c)\<close> for a one-character separator: never the empty list.\<close>

fun split_on :: "char \<Rightarrow> string \<Rightarrow> string list" where
  "split_on c [] = [[]]"
| "split_on c (x # xs) =
     (if x = c then [] # split_on c xs
      else (case split_on c xs of [] \<Rightarrow> [[x]] | l # ls \<Rightarrow> (x # l) # ls))"

text \<open>
  \<^verbatim>\<open>hay.split(needle)[0]\<close> when \<^verbatim>\<open>needle in hay\<close>: the text before the first
  occurrence of the needle; \<open>None\<close> when the needle does not occur.
\<close>

fun before_first :: "string \<Rightarrow> string \<Rightarrow> string option" where
  "before_first needle [] = (if needle = [] then Some [] else None)"
| "before_first needle (c # cs) =
     (if prefix needle (c # cs) then Some []
      else map_option ((#) c) (before_first needle cs))"

text \<open>
  \<^verbatim>\<open>s.title()\<close>: a cased character is put in title case after an uncased one and
  in lower case after a cased one.
\<close>

fun title_from :: "bool \<Rightarrow> string \<Rightarrow> string" where
  "title_from prev_cased [] = []"
| "title_from prev_cased (c # cs) =
     (if isupper c \<or> islower c
      then (if prev_cased then lower_char c else upper_char c) # title_from True cs
      else c # title_from False cs)"

definition title :: "string \<Rightarrow> string" where
  "title s = title_from False s"

text \<open>\<^verbatim>\<open>str(n)\<close> and \<^verbatim>\<open>repr\<close> of a list of plain strings.\<close>

fun str_nat :: "nat \<Rightarrow> string" where
  "str_nat n = (if n < 10 then [char_of (48 + n)] else str_nat (n div 10) @ [char_of (48 + n mod 10)])"

definition str_int :: "int \<Rightarrow> string" where
  "str_int i = (if i < 0 then ''-'' @ str_nat (nat (- i)) else str_nat (nat i))"

definition repr_list :: "string list \<Rightarrow> string" where
  "repr_list xs = ''['' @ join '', '' (map (\<lambda>x. [CHR 0x27] @ x @ [CHR 0x27]) xs) @ '']''"

section \<open>Regular expressions of the \<^verbatim>\<open>re\<close> module\<close>

text \<open>
  The patterns of the repository use character classes, the escapes \<^verbatim>\<open>\d\<close> (a
  decimal digit) and \<^verbatim>\<open>\s\<close> (whitespace as for \<^verbatim>\<open>str.isspace\<close>), greedy
  repetition of a class, sequence, ordered alternation and the end anchor.  With the
  flag IGNORECASE (the first argument of \<open>in_cls\<close>) a character is in a class when
  it, its lower case or its upper case is.  \<open>matches\<close> lists, for a pattern and
  an input, the input left over after each way of matching a prefix, in the order in
  which the backtracking matcher of \<^verbatim>\<open>re\<close> tries them: a greedy repetition tries
  the longest run first, an alternation its left branch first.  The match that
  \<^verbatim>\<open>re\<close> reports is the head of that list.
\<close>

datatype crange = Ch char | Rng char char

datatype cls = Class "crange list" | EscD | EscS

datatype rx = Atom cls | Many cls nat | Seq rx rx | Alt rx rx | Eps | End

fun in_range :: "crange \<Rightarrow> char \<Rightarrow> bool" where
  "in_range (Ch c) x \<longleftrightarrow> x = c"
| "in_range (Rng a b) x \<longleftrightarrow> code a \<le> code x \<and> code x \<le> code b"

fun in_cls :: "bool \<Rightarrow> cls \<Rightarrow> char \<Rightarrow> bool" where
  "in_cls ic (Class rs) x \<longleftrightarrow>
     list_ex (\<lambda>r. in_range r x) rs \<or>
     (ic \<and> list_ex (\<lambda>r. in_range r (lower_char x) \<or> in_range r (upper_char x)) rs)"
| "in_cls ic EscD x \<longleftrightarrow> isdecimal x"
| "in_cls ic EscS x \<longleftrightarrow> isspace x"

primrec matches :: "bool \<Rightarrow> rx \<Rightarrow> string \<Rightarrow> string list" where
  "matches ic (Atom c) s = (case s of [] \<Rightarrow> [] | x # xs \<Rightarrow> if in_cls ic c x then [xs] else [])"
| "matches ic (Many c n) s =
     map (\<lambda>j. drop j s) (rev [n ..< Suc (length (takeWhile (in_cls ic c) s))])"
| "matches ic (Seq a b) s = concat (map (matches ic b) (matches ic a s))"
| "matches ic (Alt a b) s = matches ic a s @ matches ic b s"
| "matches ic Eps s = [s]"
| "matches ic End s = (if s = [] \<or> s = [CHR 0x0A] then [s] else [])"

text \<open>A literal word, and an alternation of several patterns.\<close>

fun lit :: "string \<Rightarrow> rx" where
  "lit [] = Eps"
| "lit [c] = Atom (Class [Ch c])"
| "lit (c # cs) = Seq (Atom (Class [Ch c])) (lit cs)"

fun alts :: "rx list \<Rightarrow> rx" where
  "alts [] = Atom (Class [])"
| "alts [r] = r"
| "alts (r # rs) = Alt r (alts rs)"

text \<open>The character classes that occur in a pattern, and whether it is free of the end anchor.\<close>

fun rx_classes :: "rx \<Rightarrow> cls list" where
  "rx_classes (Atom c) = [c]"
| "rx_classes (Many c n) = [c]"
| "rx_classes (Seq a b) = rx_classes a @ rx_classes b"
| "rx_classes (Alt a b) = rx_classes a @ rx_classes b"
| "rx_classes Eps = []"
| "rx_classes End = []"

fun no_end :: "rx \<Rightarrow> bool" where
  "no_end (Seq a b) \<longleftrightarrow> no_end a \<and> no_end b"
| "no_end (Alt a b) \<longleftrightarrow> no_end a \<and> no_end b"
| "no_end End \<longleftrightarrow> False"
| "no_end p \<longleftrightarrow> True"

text \<open>\<^verbatim>\<open>re.match(p, s)\<close> succeeds when the pattern matches a prefix of \<open>s\<close>.\<close>

definition re_match :: "rx \<Rightarrow> string \<Rightarrow> bool" where
  "re_match p s \<longleftrightarrow> matches False p s \<noteq> []"

text \<open>
  \<^verbatim>\<open>re.findall(p, s)\<close> for a pattern without groups: scan from the left; where the
  pattern matches, report the matched text and go on after it; elsewhere move one
  character on.  \<open>skip\<close> counts the characters of the last match still to be passed.
  (The patterns here match no empty text.)
\<close>

fun findall_from :: "rx \<Rightarrow> nat \<Rightarrow> string \<Rightarrow> string list" where
  "findall_from p skip [] = []"
| "findall_from p skip (c # cs) =
     (if 0 < skip then findall_from p (skip - 1) cs
      else (case matches False p (c # cs) of
              [] \<Rightarrow> findall_from p 0 cs
            | rest # _ \<Rightarrow>
                (let m = length (c # cs) - length rest
                 in take m (c # cs) # findall_from p (m - 1) cs)))"

definition findall :: "rx \<Rightarrow> string \<Rightarrow> string list" where
  "findall p s = findall_from p 0 s"

text \<open>
  \<^verbatim>\<open>re.sub(g1 g2, r'\1', s)\<close> for a pattern made of group 1 followed by a second
  group: every match is replaced by the text of its first group.
\<close>

definition match_groups :: "rx \<Rightarrow> rx \<Rightarrow> string \<Rightarrow> (string \<times> string) option" where
  "match_groups g1 g2 s =
     (case concat (map (\<lambda>r1. map (\<lambda>r2. (r1, r2)) (matches False g2 r1)) (matches False g1 s)) of
        [] \<Rightarrow> None
      | (r1, r2) # _ \<Rightarrow> Some (take (length s - length r1) s, r2))"

fun sub_group1_from :: "rx \<Rightarrow> rx \<Rightarrow> nat \<Rightarrow> string \<Rightarrow> string" where
  "sub_group1_from g1 g2 skip [] = []"
| "sub_group1_from g1 g2 skip (c # cs) =
     (if 0 < skip then sub_group1_from g1 g2 (skip - 1) cs
      else (case match_groups g1 g2 (c # cs) of
              None \<Rightarrow> c # sub_group1_from g1 g2 0 cs
            | Some (grp, rest) \<Rightarrow>
                grp @ sub_group1_from g1 g2 (length (c # cs) - length rest - 1) cs))"

definition sub_group1 :: "rx \<Rightarrow> rx \<Rightarrow> string \<Rightarrow> string" where
  "sub_group1 g1 g2 s = sub_group1_from g1 g2 0 s"

section \<open>Calendar dates and \<^verbatim>\<open>datetime.strptime\<close>\<close>

record date =
  year :: nat
  month :: nat
  day :: nat

definition is_leap :: "nat \<Rightarrow> bool" where
  "is_leap y \<longleftrightarrow> y mod 4 = 0 \<and> (y mod 100 \<noteq> 0 \<or> y mod 400 = 0)"

definition days_in_month :: "nat \<Rightarrow> nat \<Rightarrow> nat" where
  "days_in_month y m =
     (if m = 2 then (if is_leap y then 29 else 28)
      else if m = 4 \<or> m = 6 \<or> m = 9 \<or> m = 11 then 30 else 31)"

text \<open>The constructor \<^verbatim>\<open>date(y, m, d)\<close> raises ValueError outside the calendar.\<close>

definition mk_date :: "nat \<Rightarrow> nat \<Rightarrow> nat \<Rightarrow> date option" where
  "mk_date y m d =
     (if 1 \<le> y \<and> y \<le> 9999 \<and> 1 \<le> m \<and> m \<le> 12 \<and> 1 \<le> d \<and> d \<le> days_in_month y m
      then Some \<lparr>year = y, month = m, day = d\<rparr> else None)"

text \<open>
  \<^verbatim>\<open>strptime\<close> turns a format into a regular expression, one named group per
  directive, a run of whitespace in the format into \<^verbatim>\<open>\s+\<close>, and matches it
  ignoring case (English month names).  The groups are those of CPython's
  \<^verbatim>\<open>_strptime.TimeRE\<close>.
\<close>

datatype directive = DY | Dm | Dd | DB | Db | Dy | DLit char | DWs | DBad

definition directive_of :: "char \<Rightarrow> directive" where
  "directive_of c =
     (if c = CHR ''Y'' then DY else if c = CHR ''m'' then Dm else if c = CHR ''d'' then Dd
      else if c = CHR ''B'' then DB else if c = CHR ''b'' then Db else if c = CHR ''y'' then Dy
      else DBad)"

fun pattern_from :: "bool \<Rightarrow> string \<Rightarrow> directive list" where
  "pattern_from in_ws [] = []"
| "pattern_from in_ws [c] =
     (if c = CHR ''%'' then [DBad] else if isspace c then (if in_ws then [] else [DWs])
      else [DLit c])"
| "pattern_from in_ws (c # d # cs) =
     (if c = CHR ''%'' then directive_of d # pattern_from False cs
      else if isspace c then (if in_ws then pattern_from True (d # cs)
                              else DWs # pattern_from True (d # cs))
      else DLit c # pattern_from False (d # cs))"

definition pattern :: "string \<Rightarrow> directive list" where
  "pattern fmt = pattern_from False fmt"

definition f_month :: "string list" where
  "f_month = [''january'', ''february'', ''march'', ''april'', ''may'', ''june'', ''july'',
     ''august'', ''september'', ''october'', ''november'', ''december'']"

definition a_month :: "string list" where
  "a_month = [''jan'', ''feb'', ''mar'', ''apr'', ''may'', ''jun'', ''jul'', ''aug'', ''sep'',
     ''oct'', ''nov'', ''dec'']"

definition digit_rng :: "char \<Rightarrow> char \<Rightarrow> rx" where
  "digit_rng a b = Atom (Class [Rng a b])"

text \<open>The alternatives of a name group are tried longest name first.\<close>

fun rx_of :: "directive \<Rightarrow> rx" where
  "rx_of DY = Seq (Atom EscD) (Seq (Atom EscD) (Seq (Atom EscD) (Atom EscD)))"
| "rx_of Dm = alts [Seq (lit ''1'') (digit_rng CHR ''0'' CHR ''2''),
                    Seq (lit ''0'') (digit_rng CHR ''1'' CHR ''9''),
                    digit_rng CHR ''1'' CHR ''9'']"
| "rx_of Dd = alts [Seq (lit ''3'') (digit_rng CHR ''0'' CHR ''1''),
                    Seq (digit_rng CHR ''1'' CHR ''2'') (Atom EscD),
                    Seq (lit ''0'') (digit_rng CHR ''1'' CHR ''9''),
                    digit_rng CHR ''1'' CHR ''9'',
                    Seq (lit '' '') (digit_rng CHR ''1'' CHR ''9'')]"
| "rx_of DB = alts (map lit [''september'', ''february'', ''november'', ''december'',
                    ''january'', ''october'', ''august'', ''march'', ''april'', ''june'',
                    ''july'', ''may''])"
| "rx_of Db = alts (map lit a_month)"
| "rx_of Dy = Seq (Atom EscD) (Atom EscD)"
| "rx_of (DLit c) = lit [c]"
| "rx_of DWs = Many EscS 1"
| "rx_of DBad = alts []"

text \<open>
  Matching the groups in sequence: every way of matching, in the matcher's order, with
  the text captured by each directive and the input left over.
\<close>

primrec run :: "directive list \<Rightarrow> string \<Rightarrow> ((directive \<times> string) list \<times> string) list" where
  "run [] s = [([], s)]"
| "run (d # ds) s =
     concat (map (\<lambda>r. map (\<lambda>(caps, r'). ((d, take (length s - length r) s) # caps, r')) (run ds r))
                 (matches True (rx_of d) s))"

definition int_of :: "string \<Rightarrow> nat" where
  "int_of s = foldl (\<lambda>n c. 10 * n + (code c - 48)) 0 (strip s)"

fun index_of :: "string \<Rightarrow> string list \<Rightarrow> nat" where
  "index_of x [] = 0"
| "index_of x (y # ys) = (if x = y then 0 else Suc (index_of x ys))"

fun set_field :: "directive \<times> string \<Rightarrow> nat \<times> nat \<times> nat \<Rightarrow> nat \<times> nat \<times> nat" where
  "set_field (DY, s) (y, m, d) = (int_of s, m, d)"
| "set_field (Dy, s) (y, m, d) = ((if int_of s \<le> 68 then 2000 + int_of s else 1900 + int_of s), m, d)"
| "set_field (Dm, s) (y, m, d) = (y, int_of s, d)"
| "set_field (DB, s) (y, m, d) = (y, Suc (index_of (lower s) f_month), d)"
| "set_field (Db, s) (y, m, d) = (y, Suc (index_of (lower s) a_month), d)"
| "set_field (Dd, s) (y, m, d) = (y, m, int_of s)"
| "set_field (_, s) (y, m, d) = (y, m, d)"

text \<open>
  \<^verbatim>\<open>datetime.strptime(s, fmt).date()\<close>; \<open>None\<close> stands for its ValueError: the
  text does not match the format, unconverted data remains, or the day is not in the
  calendar.
\<close>

definition strptime :: "string \<Rightarrow> string \<Rightarrow> date option" where
  "strptime s fmt =
     (case run (pattern fmt) s of
        [] \<Rightarrow> None
      | (caps, rest) # _ \<Rightarrow>
          if rest \<noteq> [] then None
          else (case foldr set_field caps (1900, 1, 1) of (y, m, d) \<Rightarrow> mk_date y m d))"

section \<open>The canonical record and its validator (\<^verbatim>\<open>models/schemas.py\<close>)\<close>

datatype SubscriptionTier = BASIC | PRO | ENTERPRISE

fun tier_value :: "SubscriptionTier \<Rightarrow> string" where
  "tier_value BASIC = ''Basic''"
| "tier_value PRO = ''Pro''"
| "tier_value ENTERPRISE = ''Enterprise''"

record CustomerRecord =
  customer_name :: string
  email :: string
  subscription_tier :: SubscriptionTier
  signup_date :: date

text \<open>
  A loosely typed input value: a string, a member of the tier enumeration (which is
  also a \<^verbatim>\<open>str\<close>), a date object, or any other Python value (None, a number, NaN, a
  list, ...), kept with its \<^verbatim>\<open>str()\<close> text.
\<close>

datatype raw = Str string | Tier SubscriptionTier | Date date | Other string

fun as_str :: "raw \<Rightarrow> string option" where
  "as_str (Str s) = Some s"
| "as_str (Tier t) = Some (tier_value t)"
| "as_str (Date d) = None"
| "as_str (Other x) = None"

text \<open>
  What a rejected construction reports: for each failing field its name and the
  reason, in field order.  The first three reasons and \<open>Missing\<close> are pydantic's own
  checks of a declared field; \<open>Value_error\<close> carries the message of a ValueError raised
  by a validator of the model.  The other errors are the exceptions of the services:
  a ValueError with its message, the TypeError of unpacking or iterating a value that
  is no mapping or sequence, the KeyError of a missing cell, and any exception raised
  by a document decoder.
\<close>

datatype reason = String_type | String_too_short | String_too_long | Missing
  | Value_error string

datatype error = ValidationError "(string \<times> reason) list" | ValueError string | TypeError
  | KeyError | DecoderError

definition email_local :: cls where
  "email_local = Class [Rng CHR ''a'' CHR ''z'', Rng CHR ''A'' CHR ''Z'', Rng CHR ''0'' CHR ''9'',
     Ch CHR ''.'', Ch CHR ''_'', Ch CHR ''%'', Ch CHR ''+'', Ch CHR ''-'']"

definition email_domain :: cls where
  "email_domain = Class [Rng CHR ''a'' CHR ''z'', Rng CHR ''A'' CHR ''Z'', Rng CHR ''0'' CHR ''9'',
     Ch CHR ''.'', Ch CHR ''-'']"

definition alpha :: cls where
  "alpha = Class [Rng CHR ''a'' CHR ''z'', Rng CHR ''A'' CHR ''Z'']"

text \<open>\<^verbatim>\<open>[a-zA-Z0-9._%+-]+@[a-zA-Z0-9.-]+\.[a-zA-Z]{2,}\<close>\<close>

definition email_body :: rx where
  "email_body = Seq (Many email_local 1) (Seq (lit ''@'') (Seq (Many email_domain 1)
                  (Seq (lit ''.'') (Many alpha 2))))"

definition validate_email :: "string \<Rightarrow> reason + string" where
  "validate_email v =
     (if \<not> re_match (Seq email_body End) (lower (strip v))
      then Inl (Value_error (''Invalid email format: '' @ v))
      else Inr (lower (strip v)))"

definition validate_name :: "string \<Rightarrow> reason + string" where
  "validate_name v =
     (if v = [] \<or> strip v = [] then Inl (Value_error ''Customer name cannot be empty'')
      else Inr (join '' '' (split (strip v))))"

definition tier_mapping :: "string \<rightharpoonup> SubscriptionTier" where
  "tier_mapping = map_of [
     (''professional'', PRO), (''prem'', PRO), (''premium'', PRO), (''pro'', PRO),
     (''basic'', BASIC),
     (''enterprise'', ENTERPRISE), (''corp'', ENTERPRISE), (''corporate'', ENTERPRISE)]"

fun normalize_subscription_tier :: "raw \<Rightarrow> SubscriptionTier" where
  "normalize_subscription_tier (Tier t) = t"
| "normalize_subscription_tier (Str s) =
     (case tier_mapping (lower (strip s)) of Some t \<Rightarrow> t | None \<Rightarrow> BASIC)"
| "normalize_subscription_tier (Date d) = BASIC"
| "normalize_subscription_tier (Other x) = BASIC"

definition date_formats :: "string list" where
  "date_formats = [''%Y-%m-%d'', ''%m/%d/%Y'', ''%d/%m/%Y'', ''%B %d, %Y'', ''%b %d, %Y'',
     ''%d %b %Y'', ''%d %b %y'', ''%b %d %y'', ''%Y/%m/%d'', ''%d-%m-%Y'', ''%m-%d-%Y'',
     ''%Y.%m.%d'', ''%d.%m.%Y'']"

text \<open>The loop over the formats: the first one that parses returns.\<close>

fun try_formats :: "string \<Rightarrow> string list \<Rightarrow> date option" where
  "try_formats v [] = None"
| "try_formats v (fmt # fmts) =
     (case strptime v fmt of Some d \<Rightarrow> Some d | None \<Rightarrow> try_formats v fmts)"

text \<open>\<^verbatim>\<open>re.sub(r'(\d+)(st|nd|rd|th)', r'\1', v)\<close>\<close>

definition strip_ordinals :: "string \<Rightarrow> string" where
  "strip_ordinals v =
     sub_group1 (Many EscD 1) (alts [lit ''st'', lit ''nd'', lit ''rd'', lit ''th'']) v"

text \<open>The result is the date, or the message of the ValueError raised.\<close>

fun parse_signup_date :: "raw \<Rightarrow> string + date" where
  "parse_signup_date (Date d) = Inr d"
| "parse_signup_date (Other x) = Inl (''Unable to parse date: '' @ x)"
| "parse_signup_date v =
     (let v' = strip (the (as_str v)) in
      case try_formats v' date_formats of
        Some d \<Rightarrow> Inr d
      | None \<Rightarrow>
          (case try_formats (strip_ordinals v') date_formats of
             Some d \<Rightarrow> Inr d
           | None \<Rightarrow> Inl (''Unable to parse date: '' @ v')))"

definition required_fields :: "string list" where
  "required_fields = [''customer_name'', ''email'', ''subscription_tier'', ''signup_date'']"

text \<open>The model validator that runs before the fields: the keys are looked up as they are.\<close>

definition validate_model :: "(string \<rightharpoonup> raw) \<Rightarrow> string + (string \<rightharpoonup> raw)" where
  "validate_model data =
     (let missing_fields = filter (\<lambda>field. data field = None) required_fields
      in if missing_fields \<noteq> []
         then Inl (''Missing required fields: '' @ repr_list missing_fields)
         else Inr data)"

text \<open>
  The declared field \<^verbatim>\<open>customer_name: str = Field(..., min_length=1, max_length=255)\<close>
  is checked on the value as given, before \<open>validate_name\<close> runs.
\<close>

definition check_customer_name :: "raw option \<Rightarrow> reason + string" where
  "check_customer_name r =
     (case r of None \<Rightarrow> Inl Missing
      | Some v \<Rightarrow>
          (case as_str v of None \<Rightarrow> Inl String_type
           | Some s \<Rightarrow>
               if length s < 1 then Inl String_too_short
               else if 255 < length s then Inl String_too_long
               else validate_name s))"

definition check_email :: "raw option \<Rightarrow> reason + string" where
  "check_email r =
     (case r of None \<Rightarrow> Inl Missing
      | Some v \<Rightarrow> (case as_str v of None \<Rightarrow> Inl String_type | Some s \<Rightarrow> validate_email s))"

definition check_subscription_tier :: "raw option \<Rightarrow> reason + SubscriptionTier" where
  "check_subscription_tier r =
     (case r of None \<Rightarrow> Inl Missing | Some v \<Rightarrow> Inr (normalize_subscription_tier v))"

definition check_signup_date :: "raw option \<Rightarrow> reason + date" where
  "check_signup_date r =
     (case r of None \<Rightarrow> Inl Missing
      | Some v \<Rightarrow> (case parse_signup_date v of Inl msg \<Rightarrow> Inl (Value_error msg) | Inr d \<Rightarrow> Inr d))"

definition field_error :: "string \<Rightarrow> reason + 'a \<Rightarrow> (string \<times> reason) list" where
  "field_error name r = (case r of Inl e \<Rightarrow> [(name, e)] | Inr v \<Rightarrow> [])"

text \<open>
  \<^verbatim>\<open>CustomerRecord(**data)\<close>: the model validator first; then every field is checked
  and the failures of all fields are reported together.
\<close>

definition new_CustomerRecord :: "(string \<rightharpoonup> raw) \<Rightarrow> error + CustomerRecord" where
  "new_CustomerRecord data =
     (case validate_model data of
        Inl msg \<Rightarrow> Inl (ValidationError [([], Value_error msg)])
      | Inr data' \<Rightarrow>
          (let n = check_customer_name (data' ''customer_name'');
               e = check_email (data' ''email'');
               t = check_subscription_tier (data' ''subscription_tier'');
               d = check_signup_date (data' ''signup_date'')
           in case (n, e, t, d) of
                (Inr n', Inr e', Inr t', Inr d') \<Rightarrow>
                  Inr \<lparr>customer_name = n', email = e', subscription_tier = t', signup_date = d'\<rparr>
              | _ \<Rightarrow>
                  Inl (ValidationError (field_error ''customer_name'' n @ field_error ''email'' e
                        @ field_error ''subscription_tier'' t @ field_error ''signup_date'' d))))"

section \<open>The delivery client (\<^verbatim>\<open>services/api_client.py\<close>)\<close>

text \<open>
  The destination answers a POST with an HTTP status and a body text, or the request
  fails in the transport (connection error, timeout) and raises an exception, kept
  with its \<^verbatim>\<open>str()\<close> text.  What the client does to the outside world is
  recorded as a trace of events: the POST of one record's JSON text, the POST of the
  aggregate payload (given as the JSON text \<^verbatim>\<open>json.dumps\<close> makes of it), each
  with the attempt number the client sends in the header \<^verbatim>\<open>X-Attempt-Number\<close>,
  and the sleep before a retry.  A destination may answer a POST according to the
  whole trace up to and including that POST.
\<close>

datatype response = Status nat string | Raises string

datatype event = Post_record nat string | Post_batch nat string | Sleep real

type_synonym destination = "event list \<Rightarrow> response"

type_synonym outcome = "bool \<times> string option"

record settings =
  max_retries :: int
  retry_delay :: real


text \<open>
  The body shared by \<^verbatim>\<open>_send_single_record\<close> and \<^verbatim>\<open>_send_batch\<close>: status 200,
  201 or 202 is success; another status fails with its text; an exception raised by
  the request is caught and fails with the exception's text.
\<close>

fun outcome_of :: "response \<Rightarrow> outcome" where
  "outcome_of (Status status body) =
     (if status = 200 \<or> status = 201 \<or> status = 202 then (True, None)
      else (False, Some (''HTTP '' @ str_nat status @ '': '' @ body)))"
| "outcome_of (Raises e) = (False, Some e)"

definition send_single_record :: "destination \<Rightarrow> event list \<Rightarrow> nat \<Rightarrow> string \<Rightarrow> outcome \<times> event list" where
  "send_single_record dest tr attempt record_json =
     (let tr' = tr @ [Post_record attempt record_json] in (outcome_of (dest tr'), tr'))"

definition send_batch :: "destination \<Rightarrow> event list \<Rightarrow> nat \<Rightarrow> string \<Rightarrow> outcome \<times> event list" where
  "send_batch dest tr attempt payload =
     (let tr' = tr @ [Post_batch attempt payload] in (outcome_of (dest tr'), tr'))"

text \<open>
  The loop over the records of \<^verbatim>\<open>_send_data\<close>: it stops at the first record that
  fails and returns \<^verbatim>\<open>batch_success\<close>.
\<close>

fun send_records :: "destination \<Rightarrow> event list \<Rightarrow> nat \<Rightarrow> string list \<Rightarrow> bool \<times> event list" where
  "send_records dest tr attempt [] = (True, tr)"
| "send_records dest tr attempt (record_json # rest) =
     (case send_single_record dest tr attempt record_json of
        ((True, error), tr') \<Rightarrow> send_records dest tr' attempt rest
      | ((False, error), tr') \<Rightarrow> (False, tr'))"

definition send_data :: "destination \<Rightarrow> event list \<Rightarrow> string list \<Rightarrow> string \<Rightarrow> nat \<Rightarrow> outcome \<times> event list" where
  "send_data dest tr json_data payload attempt =
     (if length json_data = 1
      then (case send_single_record dest tr attempt (hd json_data) of
              ((True, error), tr') \<Rightarrow> ((True, None), tr')
            | ((False, error), tr') \<Rightarrow> send_batch dest tr' attempt payload)
      else (case send_records dest tr attempt json_data of
              (True, tr') \<Rightarrow> ((True, None), tr')
            | (False, tr') \<Rightarrow> send_batch dest tr' attempt payload))"

text \<open>
  The sleep before attempt \<open>attempt\<close> (counted from 0) of \<^verbatim>\<open>_send_with_retry\<close>:
  none before the first attempt, \<^verbatim>\<open>retry_delay * (2 ** (attempt - 1))\<close> seconds
  before a later one.  The power is an integer and is converted to a float for the
  product; the product of a float by a power of two is exact as long as its magnitude
  stays below \<open>2 ^ 1024\<close>, the range of a float, and the delay is modelled as that
  real number.  The properties of the schedule below are stated for this range.
\<close>

definition backoff :: "settings \<Rightarrow> nat \<Rightarrow> event list" where
  "backoff cfg attempt =
     (if 0 < attempt then [Sleep (retry_delay cfg * 2 ^ (attempt - 1))] else [])"

text \<open>
  The attempt loop of \<^verbatim>\<open>_send_with_retry\<close> over \<^verbatim>\<open>range(max_retries + 1)\<close>.
  \<^verbatim>\<open>last_error\<close> is assigned in the \<^verbatim>\<open>except\<close> branch only.  A send cycle
  never raises: \<^verbatim>\<open>_send_data\<close> catches every exception and returns a failure, and
  the error it returns is dropped.  The one exception of the \<^verbatim>\<open>try\<close> body comes
  from the delay: from attempt 1025 on the power \<^verbatim>\<open>2 ** (attempt - 1)\<close> is too
  large to be converted to a float, the product raises OverflowError, the handler
  stores its text in \<^verbatim>\<open>last_error\<close>, and the loop goes on with the next attempt
  without a sleep and without a send cycle.
\<close>

definition overflow_text :: string where
  "overflow_text = ''int too large to convert to float''"

fun retry_loop :: "settings \<Rightarrow> destination \<Rightarrow> string list \<Rightarrow> string \<Rightarrow> nat list \<Rightarrow>
    string option \<Rightarrow> event list \<Rightarrow> outcome \<times> event list" where
  "retry_loop cfg dest json_data payload [] last_error tr =
     ((False, Some (''Failed to sync data after '' @ str_int (max_retries cfg + 1)
        @ '' attempts. Last error: '' @ (case last_error of None \<Rightarrow> ''None'' | Some e \<Rightarrow> e))), tr)"
| "retry_loop cfg dest json_data payload (attempt # rest) last_error tr =
     (if 1025 \<le> attempt
      then retry_loop cfg dest json_data payload rest (Some overflow_text) tr
      else (case send_data dest (tr @ backoff cfg attempt) json_data payload (attempt + 1) of
              ((True, error), tr2) \<Rightarrow> ((True, None), tr2)
            | ((False, error), tr2) \<Rightarrow> retry_loop cfg dest json_data payload rest last_error tr2))"

definition send_with_retry :: "settings \<Rightarrow> destination \<Rightarrow> string list \<Rightarrow> string \<Rightarrow> event list \<Rightarrow>
    outcome \<times> event list" where
  "send_with_retry cfg dest json_data payload tr =
     retry_loop cfg dest json_data payload [0 ..< nat (max_retries cfg + 1)] None tr"


text \<open>Three destinations used as examples below.\<close>

definition always_201 :: destination where
  "always_201 tr = Status 201 []"

definition always_500 :: destination where
  "always_500 tr = Status 500 ''Internal Server Error''"

fun accepts_batch_only :: destination where
  "accepts_batch_only tr =
     (case last tr of Post_batch a p \<Rightarrow> Status 200 [] | _ \<Rightarrow> Status 500 ''Internal Server Error'')"

section \<open>Extraction (\<^verbatim>\<open>services/extraction.py\<close>)\<close>

text \<open>
  The clock is a parameter: \<open>today\<close> is the date that \<^verbatim>\<open>datetime.now()\<close> (or
  \<^verbatim>\<open>pd.Timestamp.now()\<close>) falls on, and \<open>strftime_ymd\<close> is its text in the format
  \<^verbatim>\<open>%Y-%m-%d\<close>, for a year of four digits.
\<close>

definition digit_char :: "nat \<Rightarrow> char" where
  "digit_char n = char_of (48 + n mod 10)"

definition strftime_ymd :: "date \<Rightarrow> string" where
  "strftime_ymd d =
     [digit_char (year d div 1000), digit_char (year d div 100), digit_char (year d div 10),
      digit_char (year d), CHR ''-'', digit_char (month d div 10), digit_char (month d),
      CHR ''-'', digit_char (day d div 10), digit_char (day d)]"

subsection \<open>The regex fallback for free text\<close>

text \<open>
  The inner loop of \<^verbatim>\<open>_extract_from_text_with_regex\<close>: the first line that contains
  the email text decides the name, from the text of that line before the first
  occurrence of the email.
\<close>

fun name_for :: "string \<Rightarrow> string list \<Rightarrow> string" where
  "name_for mail [] = ''Unknown''"
| "name_for mail (line # lines) =
     (case before_first mail line of
        None \<Rightarrow> name_for mail lines
      | Some head \<Rightarrow>
          (let words_before = strip head
           in if words_before \<noteq> [] \<and> length (split words_before) \<le> 3
              then title words_before else ''Unknown''))"

definition customer_data_for :: "date \<Rightarrow> string \<Rightarrow> string \<Rightarrow> (string \<rightharpoonup> raw)" where
  "customer_data_for today text_content mail =
     [''customer_name'' \<mapsto> Str (name_for mail (split_on (CHR 0x0A) text_content)),
      ''email'' \<mapsto> Str mail,
      ''subscription_tier'' \<mapsto> Str ''Basic'',
      ''signup_date'' \<mapsto> Str (strftime_ymd today)]"

text \<open>The outer loop: a candidate whose construction raises is logged and skipped.\<close>

fun candidates :: "date \<Rightarrow> string \<Rightarrow> string list \<Rightarrow> CustomerRecord list" where
  "candidates today text_content [] = []"
| "candidates today text_content (mail # emails) =
     (case new_CustomerRecord (customer_data_for today text_content mail) of
        Inr customer \<Rightarrow> customer # candidates today text_content emails
      | Inl e \<Rightarrow> candidates today text_content emails)"

definition extract_from_text_with_regex :: "date \<Rightarrow> string \<Rightarrow> CustomerRecord list" where
  "extract_from_text_with_regex today text_content =
     candidates today text_content (findall email_body text_content)"

subsection \<open>Unstructured documents\<close>

text \<open>
  The AI capability is a parameter: absent (\<open>None\<close>), or a function from the text to
  the records it returns, \<open>None\<close> when the call raises.
\<close>

type_synonym ai_client = "(string \<Rightarrow> CustomerRecord list option) option"

definition extract_with_ai :: "ai_client \<Rightarrow> date \<Rightarrow> string \<Rightarrow> CustomerRecord list" where
  "extract_with_ai client today text_content =
     (case client of
        None \<Rightarrow> extract_from_text_with_regex today text_content
      | Some create \<Rightarrow>
          (case create text_content of
             Some customers \<Rightarrow> customers
           | None \<Rightarrow> extract_from_text_with_regex today text_content))"

text \<open>
  What the PDF decoder gives for a page: its text, no text, or an exception.  (A
  document that cannot be opened behaves as one whose first page raises.)
\<close>

datatype page = Text string | NoText | Broken

text \<open>The loop over the pages: the text collected so far, and whether a page raised.\<close>

fun read_pages :: "page list \<Rightarrow> string \<Rightarrow> string \<times> bool" where
  "read_pages [] text_content = (text_content, False)"
| "read_pages (Text page_text # pages) text_content =
     read_pages pages (if page_text \<noteq> [] then text_content @ page_text @ [CHR 0x0A] else text_content)"
| "read_pages (NoText # pages) text_content = read_pages pages text_content"
| "read_pages (Broken # pages) text_content = (text_content, True)"

text \<open>
  The \<^verbatim>\<open>try\<close> body of \<^verbatim>\<open>_extract_from_pdf\<close>, with the value of \<^verbatim>\<open>text_content\<close>
  when it ends, and the function itself, whose handler catches every exception of the
  body and falls back to the regex extractor.
\<close>

definition pdf_try :: "ai_client \<Rightarrow> date \<Rightarrow> page list \<Rightarrow> string \<times> (error + CustomerRecord list)" where
  "pdf_try client today pages =
     (case read_pages pages [] of
        (text_content, True) \<Rightarrow> (text_content, Inl DecoderError)
      | (text_content, False) \<Rightarrow>
          if strip text_content = [] then (text_content, Inl (ValueError ''No text content found in PDF''))
          else (text_content, Inr (extract_with_ai client today text_content)))"

definition extract_from_pdf :: "ai_client \<Rightarrow> date \<Rightarrow> page list \<Rightarrow> error + CustomerRecord list" where
  "extract_from_pdf client today pages =
     (case pdf_try client today pages of
        (text_content, Inr customers) \<Rightarrow> Inr customers
      | (text_content, Inl e) \<Rightarrow> Inr (extract_from_text_with_regex today text_content))"

text \<open>
  A DOCX document: its paragraphs, or \<open>None\<close> when the decoder raises on opening it.
\<close>

definition docx_try :: "ai_client \<Rightarrow> date \<Rightarrow> string list option \<Rightarrow> string \<times> (error + CustomerRecord list)" where
  "docx_try client today doc =
     (case doc of
        None \<Rightarrow> ([], Inl DecoderError)
      | Some paragraphs \<Rightarrow>
          (let text_content = concat (map (\<lambda>p. p @ [CHR 0x0A]) paragraphs)
           in if strip text_content = [] then (text_content, Inl (ValueError ''No text content found in DOCX''))
              else (text_content, Inr (extract_with_ai client today text_content))))"

definition extract_from_docx :: "ai_client \<Rightarrow> date \<Rightarrow> string list option \<Rightarrow> error + CustomerRecord list" where
  "extract_from_docx client today doc =
     (case docx_try client today doc of
        (text_content, Inr customers) \<Rightarrow> Inr customers
      | (text_content, Inl e) \<Rightarrow> Inr (extract_from_text_with_regex today text_content))"

subsection \<open>Structured objects\<close>

text \<open>
  A decoded JSON document: a string, another scalar (null, a boolean, a number) with
  its \<^verbatim>\<open>str()\<close> text, an array, or an object as the list of its items (the keys of
  a decoded object are distinct).
\<close>

datatype json = JStr string | JScalar string | JArr "json list" | JObj "(string \<times> json) list"

text \<open>
  The value a field of a record is given: a string as it is; anything else is not a
  string, and its text matters only inside the message of an unparsable date, where a
  container is shown as \<open>...\<close>.
\<close>

fun to_raw :: "json \<Rightarrow> raw" where
  "to_raw (JStr s) = Str s"
| "to_raw (JScalar t) = Other t"
| "to_raw (JArr xs) = Other ''[...]''"
| "to_raw (JObj kvs) = Other ''{...}''"

definition kwargs :: "(string \<times> json) list \<Rightarrow> (string \<rightharpoonup> raw)" where
  "kwargs kvs = map_option to_raw \<circ> map_of kvs"

text \<open>
  Iterating over the value taken as the sequence of records: the elements of an array,
  the characters of a string, the keys of an object; a scalar is not iterable.
\<close>

fun iterate :: "json \<Rightarrow> json list option" where
  "iterate (JArr xs) = Some xs"
| "iterate (JStr s) = Some (map (\<lambda>c. JStr [c]) s)"
| "iterate (JObj kvs) = Some (map (\<lambda>(k, v). JStr k) kvs)"
| "iterate (JScalar t) = None"

text \<open>\<^verbatim>\<open>CustomerRecord(**record)\<close>: only a mapping can be unpacked.\<close>

fun record_of :: "json \<Rightarrow> error + CustomerRecord" where
  "record_of (JObj kvs) = new_CustomerRecord (kwargs kvs)"
| "record_of v = Inl TypeError"

text \<open>The list comprehension: the first construction that raises ends the call.\<close>

fun records_of :: "json list \<Rightarrow> error + CustomerRecord list" where
  "records_of [] = Inr []"
| "records_of (record # rest) =
     (case record_of record of
        Inl e \<Rightarrow> Inl e
      | Inr customer \<Rightarrow> (case records_of rest of Inl e \<Rightarrow> Inl e | Inr customers \<Rightarrow> Inr (customer # customers)))"

definition records_data :: "json \<Rightarrow> error + json" where
  "records_data data =
     (case data of
        JArr xs \<Rightarrow> Inr data
      | JObj kvs \<Rightarrow>
          (case map_of kvs ''customers'' of
             Some v \<Rightarrow> Inr v
           | None \<Rightarrow> (case map_of kvs ''data'' of Some v \<Rightarrow> Inr v | None \<Rightarrow> Inr (JArr [data])))
      | _ \<Rightarrow> Inl (ValueError ''Invalid JSON structure''))"

definition extract_from_json :: "json \<Rightarrow> error + CustomerRecord list" where
  "extract_from_json data =
     (case records_data data of
        Inl e \<Rightarrow> Inl e
      | Inr v \<Rightarrow> (case iterate v of None \<Rightarrow> Inl TypeError | Some records \<Rightarrow> records_of records))"

subsection \<open>Tables\<close>

text \<open>
  A data frame: its column labels in order, and its rows, each giving the cell under a
  label.  An empty cell is the float NaN, \<open>Other ''nan''\<close>.
\<close>

record DataFrame =
  columns :: "string list"
  rows :: "(string \<rightharpoonup> raw) list"

definition column_mapping :: "(string \<times> string list) list" where
  "column_mapping = [
     (''customer_name'', [''name'', ''customer'', ''client_name'', ''customer_name'', ''fullname'']),
     (''email'', [''email'', ''email_address'', ''mail'', ''contact_email'']),
     (''subscription_tier'', [''tier'', ''subscription'', ''plan'', ''subscription_tier'', ''level'']),
     (''signup_date'', [''date'', ''signup_date'', ''join_date'', ''created'', ''registration_date''])]"

fun find_column :: "string list \<Rightarrow> string list \<Rightarrow> string option" where
  "find_column possible_names [] = None"
| "find_column possible_names (col # cols) =
     (if lower col \<in> set (map lower possible_names) then Some col
      else find_column possible_names cols)"

definition actual_columns :: "string list \<Rightarrow> (string \<rightharpoonup> string)" where
  "actual_columns cols field =
     (case map_of column_mapping field of
        None \<Rightarrow> None
      | Some possible_names \<Rightarrow> find_column possible_names cols)"

text \<open>
  Filling \<^verbatim>\<open>customer_data\<close> for one row, field by field; \<open>None\<close> when reading the
  row raises (no cell under the label).
\<close>

fun fill :: "(string \<rightharpoonup> string) \<Rightarrow> date \<Rightarrow> (string \<rightharpoonup> raw) \<Rightarrow> string list \<Rightarrow> (string \<rightharpoonup> raw)
    \<Rightarrow> (string \<rightharpoonup> raw) option" where
  "fill actual today row [] customer_data = Some customer_data"
| "fill actual today row (field # todo) customer_data =
     (case actual field of
        Some col \<Rightarrow>
          (case row col of
             None \<Rightarrow> None
           | Some v \<Rightarrow> fill actual today row todo (customer_data(field \<mapsto> v)))
      | None \<Rightarrow>
          if field = ''subscription_tier''
          then fill actual today row todo (customer_data(field \<mapsto> Str ''Basic''))
          else if field = ''signup_date''
          then fill actual today row todo (customer_data(field \<mapsto> Str (strftime_ymd today)))
          else fill actual today row todo customer_data)"

text \<open>The \<^verbatim>\<open>try\<close> body for one row.\<close>

definition row_record :: "(string \<rightharpoonup> string) \<Rightarrow> date \<Rightarrow> (string \<rightharpoonup> raw) \<Rightarrow> error + CustomerRecord" where
  "row_record actual today row =
     (case fill actual today row required_fields Map.empty of
        None \<Rightarrow> Inl KeyError
      | Some customer_data \<Rightarrow> new_CustomerRecord customer_data)"

text \<open>The loop over the rows: a row whose body raises is logged and skipped.\<close>

fun rows_loop :: "(string \<rightharpoonup> string) \<Rightarrow> date \<Rightarrow> (string \<rightharpoonup> raw) list \<Rightarrow> CustomerRecord list" where
  "rows_loop actual today [] = []"
| "rows_loop actual today (row # rest) =
     (case row_record actual today row of
        Inr customer \<Rightarrow> customer # rows_loop actual today rest
      | Inl e \<Rightarrow> rows_loop actual today rest)"

definition dataframe_to_records :: "date \<Rightarrow> DataFrame \<Rightarrow> error + CustomerRecord list" where
  "dataframe_to_records today df =
     (let actual = actual_columns (columns df)
      in if actual ''customer_name'' = None \<or> actual ''email'' = None
         then Inl (ValueError ''CSV must contain customer name and email columns'')
         else Inr (rows_loop actual today (rows df)))"

section \<open>Properties of the validator\<close>

text \<open>
  Whitespace and letters are those of Python, not only the ASCII ones: the no-break
  space and NEL are trimmed and separate words, and a letter such as U+00E9 is cased.
\<close>

lemma tier_no_break_space:
  "normalize_subscription_tier (Str [CHR ''P'', CHR ''r'', CHR ''o'', CHR 0xA0]) = PRO"
  by code_simp

lemma email_no_break_space:
  "validate_email [CHR '' '', CHR ''a'', CHR ''@'', CHR ''b'', CHR ''.'', CHR ''c'', CHR ''o'', CHR 0xA0]
     = Inr ''a@b.co''"
  by code_simp

lemma date_no_break_space:
  "parse_signup_date (Str [CHR ''1'', CHR 0xA0, CHR ''J'', CHR ''a'', CHR ''n'', CHR 0xA0,
       CHR ''2'', CHR ''0'', CHR ''2'', CHR ''4''])
     = Inr \<lparr>year = 2024, month = 1, day = 1\<rparr>"
  by code_simp

lemma title_latin_letter:
  "title [CHR ''j'', CHR ''o'', CHR ''s'', CHR 0xE9, CHR ''a''] = [CHR ''J'', CHR ''o'', CHR ''s'', CHR 0xE9, CHR ''a'']
   \<and> length (split [CHR ''a'', CHR 0xA0, CHR ''b'', CHR 0x85, CHR ''c'', CHR '' '', CHR ''d'']) = 4"
  by code_simp

lemma tier_value_roundtrip: "normalize_subscription_tier (Str (tier_value t)) = t"
proof -
  have "normalize_subscription_tier (Str (tier_value BASIC)) = BASIC"
    and "normalize_subscription_tier (Str (tier_value PRO)) = PRO"
    and "normalize_subscription_tier (Str (tier_value ENTERPRISE)) = ENTERPRISE"
    by code_simp+
  then show ?thesis by (cases t) simp_all
qed

text \<open>
  C8. Tier normalization has no failing branch and is idempotent: a member of the
  enumeration is returned as it is, the canonical spelling of a tier maps to that tier,
  normalizing a result again changes nothing, and a string that the synonym table does
  not know, a date or any other value gives Basic.
\<close>

theorem tier_normalization_total_idempotent:
  "normalize_subscription_tier (Tier t) = t
   \<and> normalize_subscription_tier (Str (tier_value t)) = t
   \<and> normalize_subscription_tier (Tier (normalize_subscription_tier v)) = normalize_subscription_tier v
   \<and> (tier_mapping (lower (strip s)) = None \<longrightarrow> normalize_subscription_tier (Str s) = BASIC)
   \<and> normalize_subscription_tier (Date d) = BASIC
   \<and> normalize_subscription_tier (Other x) = BASIC"
  using tier_value_roundtrip [of t] by simp

theorem tier_normalization_witness:
  "tier_mapping (lower (strip ''Gold '')) = None \<and> normalize_subscription_tier (Str ''Gold '') = BASIC"
proof -
  have h: "tier_mapping (lower (strip ''Gold '')) = None" by code_simp
  with tier_normalization_total_idempotent [of _ _ "''Gold ''"] show ?thesis by blast
qed

text \<open>
  C4, as the code has it.  The required-field check runs before any field is looked at
  and looks the four canonical key names up exactly as written: when one of them is
  absent the construction is rejected with the single message that lists every absent
  field, whatever the values of the fields present; when all four are present the
  rejection, if any, is never that message.
\<close>

theorem required_fields_checked_first:
  "(if \<exists>f \<in> set required_fields. data f = None
    then new_CustomerRecord data =
           Inl (ValidationError [([], Value_error (''Missing required fields: ''
                  @ repr_list (filter (\<lambda>f. data f = None) required_fields)))])
    else \<forall>msg. new_CustomerRecord data \<noteq> Inl (ValidationError [([], msg)]))"
proof (cases "\<exists>f \<in> set required_fields. data f = None")
  case True
  then have "filter (\<lambda>f. data f = None) required_fields \<noteq> []"
    by (simp add: filter_empty_conv)
  with True show ?thesis
    by (simp add: new_CustomerRecord_def validate_model_def Let_def)
next
  case False
  then have none: "filter (\<lambda>f. data f = None) required_fields = []"
    by (simp add: filter_empty_conv)
  have "new_CustomerRecord data \<noteq> Inl (ValidationError [([], msg)])" for msg
    unfolding new_CustomerRecord_def validate_model_def Let_def none
    by (auto simp: field_error_def split: sum.splits)
  with False show ?thesis by simp
qed

theorem required_fields_checked_first_witness:
  "new_CustomerRecord [''customer_name'' \<mapsto> Str [], ''subscription_tier'' \<mapsto> Str ''Pro''] =
     Inl (ValidationError [([], Value_error (''Missing required fields: ''
            @ repr_list [''email'', ''signup_date'']))])"
  using required_fields_checked_first
          [of "[''customer_name'' \<mapsto> Str [], ''subscription_tier'' \<mapsto> Str ''Pro'']"]
  by (simp add: required_fields_def)

text \<open>
  The claim of C4 that a key is recognized up to letter case fails: a mapping whose name
  key is spelled \<open>Customer_Name\<close>, with four valid values, is rejected as missing
  \<open>customer_name\<close>.
\<close>

theorem required_fields_case_sensitive:
  "lower ''Customer_Name'' = ''customer_name''
   \<and> new_CustomerRecord [''Customer_Name'' \<mapsto> Str ''John Doe'', ''email'' \<mapsto> Str ''john@example.com'',
        ''subscription_tier'' \<mapsto> Str ''Pro'', ''signup_date'' \<mapsto> Str ''2024-01-15''] =
       Inl (ValidationError [([], Value_error (''Missing required fields: ''
              @ repr_list [''customer_name'']))])"
  by code_simp

text \<open>
  C10. A name of more than 255 characters, counted on the value as given, is never
  accepted, whatever else the input holds.  When the other three keys are present the
  rejection lists the failure \<open>string_too_long\<close> of \<open>customer_name\<close> first, whatever
  the other three fields hold; and when the email and the date pass their own checks
  it is the only failure listed.
\<close>

theorem name_longer_than_255_rejected:
  assumes "255 < length s"
  shows "(\<forall>r. new_CustomerRecord (data(''customer_name'' \<mapsto> Str s)) \<noteq> Inr r)
    \<and> (data ''email'' \<noteq> None \<and> data ''subscription_tier'' \<noteq> None \<and> data ''signup_date'' \<noteq> None \<longrightarrow>
         (\<exists>others. new_CustomerRecord (data(''customer_name'' \<mapsto> Str s)) =
            Inl (ValidationError ((''customer_name'', String_too_long) # others))
          \<and> (check_email (data ''email'') \<noteq> Inl String_type
               \<and> (\<forall>msg. check_email (data ''email'') \<noteq> Inl (Value_error msg))
               \<and> (\<forall>msg. check_signup_date (data ''signup_date'') \<noteq> Inl (Value_error msg))
             \<longrightarrow> others = [])))"
proof -
  let ?data = "data(''customer_name'' \<mapsto> Str s)"
  have n: "check_customer_name (Some (Str s)) = Inl String_too_long"
    using assms by (auto simp: check_customer_name_def)
  have rejected: "new_CustomerRecord ?data \<noteq> Inr r" for r
    unfolding new_CustomerRecord_def Let_def
    by (cases "validate_model ?data")
       (auto simp: validate_model_def Let_def n split: if_splits sum.splits)
  have listed: "\<exists>others. new_CustomerRecord ?data =
            Inl (ValidationError ((''customer_name'', String_too_long) # others))
          \<and> (check_email (data ''email'') \<noteq> Inl String_type
               \<and> (\<forall>msg. check_email (data ''email'') \<noteq> Inl (Value_error msg))
               \<and> (\<forall>msg. check_signup_date (data ''signup_date'') \<noteq> Inl (Value_error msg))
             \<longrightarrow> others = [])"
    if "data ''email'' \<noteq> None" "data ''subscription_tier'' \<noteq> None" "data ''signup_date'' \<noteq> None"
  proof -
    from that obtain e t d where present: "data ''email'' = Some e"
      "data ''subscription_tier'' = Some t" "data ''signup_date'' = Some d"
      by auto
    then have "filter (\<lambda>f. ?data f = None) required_fields = []"
      by (simp add: required_fields_def)
    then have vm: "validate_model ?data = Inr ?data"
      by (simp add: validate_model_def)
    have eq: "new_CustomerRecord ?data =
        Inl (ValidationError ((''customer_name'', String_too_long)
               # field_error ''email'' (check_email (Some e))
               @ field_error ''signup_date'' (check_signup_date (Some d))))"
      unfolding new_CustomerRecord_def vm Let_def
      using present
      by (simp add: n field_error_def check_subscription_tier_def split: sum.splits)
    have "field_error ''email'' (check_email (Some e))
               @ field_error ''signup_date'' (check_signup_date (Some d)) = []"
      if "check_email (Some e) \<noteq> Inl String_type"
        "\<forall>msg. check_email (Some e) \<noteq> Inl (Value_error msg)"
        "\<forall>msg. check_signup_date (Some d) \<noteq> Inl (Value_error msg)"
      using that
      by (auto simp: field_error_def check_email_def check_signup_date_def validate_email_def
            split: sum.splits option.splits if_splits)
    with eq present show ?thesis by auto
  qed
  from rejected listed show ?thesis by blast
qed

theorem name_longer_than_255_rejected_witness:
  "255 < length (replicate 256 CHR ''a'')
   \<and> new_CustomerRecord [''email'' \<mapsto> Str ''a@b.co'', ''subscription_tier'' \<mapsto> Str ''Pro'',
        ''signup_date'' \<mapsto> Str ''2024-01-15'', ''customer_name'' \<mapsto> Str (replicate 256 CHR ''a'')] =
       Inl (ValidationError [(''customer_name'', String_too_long)])"
proof -
  let ?data = "[''email'' \<mapsto> Str ''a@b.co'', ''subscription_tier'' \<mapsto> Str ''Pro'',
                     ''signup_date'' \<mapsto> Str ''2024-01-15'']"
  have e: "check_email (Some (Str ''a@b.co'')) = Inr ''a@b.co''"
    by code_simp
  have d: "check_signup_date (Some (Str ''2024-01-15'')) = Inr \<lparr>year = 2024, month = 1, day = 15\<rparr>"
    by code_simp
  have l: "255 < length (replicate 256 CHR ''a'')"
    by simp
  from name_longer_than_255_rejected [OF l, of ?data]
  show ?thesis by (auto simp: e d)
qed

section \<open>Properties of the delivery client\<close>

text \<open>The loop over the records, when every POST is accepted and when one is refused.\<close>

lemma send_records_all:
  "(\<forall>i<length jd. fst (outcome_of (dest (tr @ map (Post_record a) (take (Suc i) jd))))) \<Longrightarrow>
   send_records dest tr a jd = (True, tr @ map (Post_record a) jd)"
proof (induction jd arbitrary: tr)
  case Nil
  then show ?case by simp
next
  case (Cons r rs)
  from Cons.prems have h0: "fst (outcome_of (dest (tr @ [Post_record a r])))"
    by (auto dest: spec [of _ 0])
  have "\<forall>i<length rs. fst (outcome_of (dest ((tr @ [Post_record a r]) @ map (Post_record a) (take (Suc i) rs))))"
  proof (intro allI impI)
    fix i assume "i < length rs"
    with Cons.prems have "fst (outcome_of (dest (tr @ map (Post_record a) (take (Suc (Suc i)) (r # rs)))))"
      by (auto simp del: take_Suc_Cons)
    then show "fst (outcome_of (dest ((tr @ [Post_record a r]) @ map (Post_record a) (take (Suc i) rs))))"
      by simp
  qed
  from Cons.IH [OF this] h0 show ?case
    by (cases "outcome_of (dest (tr @ [Post_record a r]))") (simp add: send_single_record_def)
qed

lemma send_records_first_failure:
  "i < length jd \<Longrightarrow>
   (\<forall>j<i. fst (outcome_of (dest (tr @ map (Post_record a) (take (Suc j) jd))))) \<Longrightarrow>
   \<not> fst (outcome_of (dest (tr @ map (Post_record a) (take (Suc i) jd)))) \<Longrightarrow>
   send_records dest tr a jd = (False, tr @ map (Post_record a) (take (Suc i) jd))"
proof (induction jd arbitrary: tr i)
  case Nil
  then show ?case by simp
next
  case (Cons r rs)
  show ?case
  proof (cases i)
    case 0
    with Cons.prems(3) show ?thesis
      by (cases "outcome_of (dest (tr @ [Post_record a r]))") (simp add: send_single_record_def)
  next
    case (Suc k)
    with Cons.prems have k: "k < length rs" by simp
    from Cons.prems(2) Suc have h0: "fst (outcome_of (dest (tr @ [Post_record a r])))"
      by (auto dest: spec [of _ 0])
    have pre: "\<forall>j<k. fst (outcome_of (dest ((tr @ [Post_record a r]) @ map (Post_record a) (take (Suc j) rs))))"
    proof (intro allI impI)
      fix j assume "j < k"
      then have "Suc j < i" using Suc by simp
      with Cons.prems(2) have "fst (outcome_of (dest (tr @ map (Post_record a) (take (Suc (Suc j)) (r # rs)))))"
        by blast
      then show "fst (outcome_of (dest ((tr @ [Post_record a r]) @ map (Post_record a) (take (Suc j) rs))))"
        by simp
    qed
    from Cons.prems(3) Suc
    have fail: "\<not> fst (outcome_of (dest ((tr @ [Post_record a r]) @ map (Post_record a) (take (Suc k) rs))))"
      by simp
    from Cons.IH [OF k pre fail] h0 Suc show ?thesis
      by (cases "outcome_of (dest (tr @ [Post_record a r]))") (simp add: send_single_record_def)
  qed
qed

text \<open>A batch of one record takes the same path as a longer one.\<close>

lemma send_data_as_records:
  "send_data dest tr jd p a =
     (case send_records dest tr a jd of
        (True, tr') \<Rightarrow> ((True, None), tr')
      | (False, tr') \<Rightarrow> send_batch dest tr' a p)"
proof (cases "length jd = 1")
  case True
  then obtain r where jd: "jd = [r]"
    by (cases jd) auto
  show ?thesis
    by (cases "outcome_of (dest (tr @ [Post_record a r]))")
       (simp add: jd send_data_def send_single_record_def split: bool.splits)
next
  case False
  then show ?thesis by (simp add: send_data_def)
qed

text \<open>
  C1, as the code has it.  A POST succeeds exactly on status 200, 201 or 202 (a
  transport error or timeout is a failure).  For a batch of any size, one record
  included, a send cycle POSTs the individual payloads in sequence; when all are
  accepted the cycle succeeds and no aggregate POST is made; at the first refused one
  the remaining individual POSTs are abandoned and exactly one aggregate POST follows,
  whose outcome is the outcome of the cycle.
\<close>

theorem send_cycle:
  "(fst (outcome_of r) \<longleftrightarrow> (\<exists>body. r = Status 200 body \<or> r = Status 201 body \<or> r = Status 202 body))
   \<and> ((\<forall>i<length json_data.
          fst (outcome_of (dest (tr @ map (Post_record a) (take (Suc i) json_data))))) \<longrightarrow>
        send_data dest tr json_data payload a =
          ((True, None), tr @ map (Post_record a) json_data))
   \<and> (i < length json_data \<longrightarrow>
        (\<forall>j<i. fst (outcome_of (dest (tr @ map (Post_record a) (take (Suc j) json_data))))) \<longrightarrow>
        \<not> fst (outcome_of (dest (tr @ map (Post_record a) (take (Suc i) json_data)))) \<longrightarrow>
        send_data dest tr json_data payload a =
          (outcome_of (dest (tr @ map (Post_record a) (take (Suc i) json_data) @ [Post_batch a payload])),
           tr @ map (Post_record a) (take (Suc i) json_data) @ [Post_batch a payload]))"
proof (intro conjI impI)
  show "fst (outcome_of r) \<longleftrightarrow> (\<exists>body. r = Status 200 body \<or> r = Status 201 body \<or> r = Status 202 body)"
    by (cases r) auto
next
  assume "\<forall>i<length json_data.
            fst (outcome_of (dest (tr @ map (Post_record a) (take (Suc i) json_data))))"
  then show "send_data dest tr json_data payload a = ((True, None), tr @ map (Post_record a) json_data)"
    by (simp add: send_data_as_records send_records_all)
next
  assume "i < length json_data"
    and "\<forall>j<i. fst (outcome_of (dest (tr @ map (Post_record a) (take (Suc j) json_data))))"
    and "\<not> fst (outcome_of (dest (tr @ map (Post_record a) (take (Suc i) json_data))))"
  then have "send_records dest tr a json_data = (False, tr @ map (Post_record a) (take (Suc i) json_data))"
    by (rule send_records_first_failure)
  then show "send_data dest tr json_data payload a =
          (outcome_of (dest (tr @ map (Post_record a) (take (Suc i) json_data) @ [Post_batch a payload])),
           tr @ map (Post_record a) (take (Suc i) json_data) @ [Post_batch a payload])"
    by (simp add: send_data_as_records send_batch_def Let_def)
qed

theorem send_cycle_witness:
  "send_data always_201 [] [''r1'', ''r2''] ''p'' 1 = ((True, None), [Post_record 1 ''r1'', Post_record 1 ''r2''])
   \<and> send_data accepts_batch_only [] [''r1'', ''r2''] ''p'' 1 =
       ((True, None), [Post_record 1 ''r1'', Post_batch 1 ''p''])"
proof -
  have "send_data always_201 [] [''r1'', ''r2''] ''p'' 1 = ((True, None), [] @ map (Post_record 1) [''r1'', ''r2''])"
    using send_cycle [of _ "[''r1'', ''r2'']" always_201 "[]" 1 "''p''"]
    by (simp add: always_201_def)
  moreover
  have "send_data accepts_batch_only [] [''r1'', ''r2''] ''p'' 1 =
       (outcome_of (accepts_batch_only ([] @ map (Post_record 1) (take (Suc 0) [''r1'', ''r2'']) @ [Post_batch 1 ''p''])),
        [] @ map (Post_record 1) (take (Suc 0) [''r1'', ''r2'']) @ [Post_batch 1 ''p''])"
    using send_cycle [of _ "[''r1'', ''r2'']" accepts_batch_only "[]" 1 "''p''" 0]
    by simp
  ultimately show ?thesis by simp
qed

text \<open>
  The claim of C1 that a refused single record ends the cycle as a failure without an
  aggregate POST fails: with a destination that refuses the record and accepts the
  aggregate payload, the cycle of a one-record batch makes both POSTs and succeeds.
\<close>

theorem single_record_falls_back_to_batch:
  "length [''r1''] = 1
   \<and> \<not> fst (outcome_of (accepts_batch_only [Post_record 1 ''r1'']))
   \<and> send_data accepts_batch_only [] [''r1''] ''p'' 1 =
       ((True, None), [Post_record 1 ''r1'', Post_batch 1 ''p''])"
  by (simp add: send_data_def send_single_record_def send_batch_def)















text \<open>
  C2 does not hold of the code.  With one record and a destination that always answers
  500, each cycle fails with the reason \<open>HTTP 500: Internal Server Error\<close>, and after
  four attempts the message ends in \<open>Last error: None\<close>: the reason of the failed cycle
  is not in it.
\<close>

theorem last_error_is_dropped:
  "send_data always_500 [] [''r1''] ''p'' 1 =
     ((False, Some ''HTTP 500: Internal Server Error''), [Post_record 1 ''r1'', Post_batch 1 ''p''])
   \<and> fst (send_with_retry \<lparr>max_retries = 3, retry_delay = 1\<rparr> always_500 [''r1''] ''p'' []) =
       (False, Some ''Failed to sync data after 4 attempts. Last error: None'')"
  by code_simp

section \<open>Properties of date parsing\<close>

text \<open>The loop over the formats returns the result of the first format that parses.\<close>

lemma try_formats_Some:
  "try_formats v fmts = Some d \<longleftrightarrow>
     (\<exists>i<length fmts. strptime v (fmts ! i) = Some d \<and> (\<forall>j<i. strptime v (fmts ! j) = None))"
proof (induction fmts)
  case Nil
  then show ?case by simp
next
  case (Cons fmt fmts)
  show ?case
  proof (cases "strptime v fmt")
    case None
    have "(\<exists>i<length (fmt # fmts). strptime v ((fmt # fmts) ! i) = Some d \<and> (\<forall>j<i. strptime v ((fmt # fmts) ! j) = None))
          \<longleftrightarrow> (\<exists>i<length fmts. strptime v (fmts ! i) = Some d \<and> (\<forall>j<i. strptime v (fmts ! j) = None))"
      (is "?L \<longleftrightarrow> ?R")
    proof
      assume ?L
      then obtain i where i: "i < length (fmt # fmts)" "strptime v ((fmt # fmts) ! i) = Some d"
        "\<forall>j<i. strptime v ((fmt # fmts) ! j) = None" by blast
      from i(2) None obtain k where k: "i = Suc k" by (cases i) auto
      have "\<forall>j<k. strptime v (fmts ! j) = None"
      proof (intro allI impI)
        fix j assume "j < k"
        then have "Suc j < i" using k by simp
        with i(3) have "strptime v ((fmt # fmts) ! Suc j) = None" by blast
        then show "strptime v (fmts ! j) = None" by simp
      qed
      with i(1,2) k show ?R by auto
    next
      assume ?R
      then obtain i where i: "i < length fmts" "strptime v (fmts ! i) = Some d"
        "\<forall>j<i. strptime v (fmts ! j) = None" by blast
      have "\<forall>j<Suc i. strptime v ((fmt # fmts) ! j) = None"
      proof (intro allI impI)
        fix j assume "j < Suc i"
        then show "strptime v ((fmt # fmts) ! j) = None"
          using None i(3) by (cases j) auto
      qed
      with i(1,2) show ?L
        by (intro exI [of _ "Suc i"]) simp
    qed
    with None Cons.IH show ?thesis by simp
  next
    case (Some d')
    have "(\<exists>i<length (fmt # fmts). strptime v ((fmt # fmts) ! i) = Some d \<and> (\<forall>j<i. strptime v ((fmt # fmts) ! j) = None))
          \<longleftrightarrow> d' = d" (is "?L \<longleftrightarrow> _")
    proof
      assume ?L
      then obtain i where i: "strptime v ((fmt # fmts) ! i) = Some d"
        "\<forall>j<i. strptime v ((fmt # fmts) ! j) = None" by blast
      have "i = 0"
      proof (rule ccontr)
        assume "i \<noteq> 0"
        then have "0 < i" by simp
        with i(2) have "strptime v ((fmt # fmts) ! 0) = None" by blast
        with Some show False by simp
      qed
      with i(1) Some show "d' = d" by simp
    next
      assume "d' = d"
      with Some show ?L by (intro exI [of _ 0]) simp
    qed
    with Some show ?thesis by simp
  qed
qed

lemma try_formats_None:
  "try_formats v fmts = None \<longleftrightarrow> (\<forall>j<length fmts. strptime v (fmts ! j) = None)"
proof (induction fmts)
  case Nil
  then show ?case by simp
next
  case (Cons fmt fmts)
  have "(\<forall>j<length (fmt # fmts). strptime v ((fmt # fmts) ! j) = None)
        \<longleftrightarrow> strptime v fmt = None \<and> (\<forall>j<length fmts. strptime v (fmts ! j) = None)"
    by (auto simp: nth_Cons split: nat.splits)
  with Cons.IH show ?case
    by (cases "strptime v fmt") simp_all
qed

text \<open>
  C6, as the code has it.  For a string, the validator trims it and tries the thirteen
  formats in the listed order; the first format that parses gives the date, so that
  \<open>01/02/2024\<close> is the 2nd of January.  When none parses, the ordinal suffixes are
  stripped and the thirteen formats are tried once more in the same order.  When none
  parses then either, the rejection message is \<open>Unable to parse date:\<close> followed by the
  trimmed input.
\<close>

theorem date_formats_in_order:
  "date_formats = [''%Y-%m-%d'', ''%m/%d/%Y'', ''%d/%m/%Y'', ''%B %d, %Y'', ''%b %d, %Y'',
     ''%d %b %Y'', ''%d %b %y'', ''%b %d %y'', ''%Y/%m/%d'', ''%d-%m-%Y'', ''%m-%d-%Y'',
     ''%Y.%m.%d'', ''%d.%m.%Y'']
   \<and> length date_formats = 13
   \<and> (i < 13 \<longrightarrow> strptime (strip s) (date_formats ! i) = Some d \<longrightarrow>
        (\<forall>j<i. strptime (strip s) (date_formats ! j) = None) \<longrightarrow>
        parse_signup_date (Str s) = Inr d)
   \<and> ((\<forall>j<13. strptime (strip s) (date_formats ! j) = None) \<longrightarrow>
        i < 13 \<longrightarrow> strptime (strip_ordinals (strip s)) (date_formats ! i) = Some d \<longrightarrow>
        (\<forall>j<i. strptime (strip_ordinals (strip s)) (date_formats ! j) = None) \<longrightarrow>
        parse_signup_date (Str s) = Inr d)
   \<and> ((\<forall>j<13. strptime (strip s) (date_formats ! j) = None) \<longrightarrow>
        (\<forall>j<13. strptime (strip_ordinals (strip s)) (date_formats ! j) = None) \<longrightarrow>
        parse_signup_date (Str s) = Inl (''Unable to parse date: '' @ strip s))
   \<and> parse_signup_date (Str ''01/02/2024'') = Inr \<lparr>year = 2024, month = 1, day = 2\<rparr>"
proof -
  have len: "length date_formats = 13"
    by (simp add: date_formats_def)
  have c3: "parse_signup_date (Str s) = Inr d"
    if "i < 13" "strptime (strip s) (date_formats ! i) = Some d"
      "\<forall>j<i. strptime (strip s) (date_formats ! j) = None"
  proof -
    from that len have "try_formats (strip s) date_formats = Some d"
      unfolding try_formats_Some by auto
    then show ?thesis by simp
  qed
  have c4: "parse_signup_date (Str s) = Inr d"
    if "\<forall>j<13. strptime (strip s) (date_formats ! j) = None"
      "i < 13" "strptime (strip_ordinals (strip s)) (date_formats ! i) = Some d"
      "\<forall>j<i. strptime (strip_ordinals (strip s)) (date_formats ! j) = None"
  proof -
    from that(1) len have "try_formats (strip s) date_formats = None"
      unfolding try_formats_None by simp
    moreover from that(2-4) len have "try_formats (strip_ordinals (strip s)) date_formats = Some d"
      unfolding try_formats_Some by auto
    ultimately show ?thesis by simp
  qed
  have c5: "parse_signup_date (Str s) = Inl (''Unable to parse date: '' @ strip s)"
    if "\<forall>j<13. strptime (strip s) (date_formats ! j) = None"
      "\<forall>j<13. strptime (strip_ordinals (strip s)) (date_formats ! j) = None"
  proof -
    from that(1) len have "try_formats (strip s) date_formats = None"
      unfolding try_formats_None by simp
    moreover from that(2) len have "try_formats (strip_ordinals (strip s)) date_formats = None"
      unfolding try_formats_None by simp
    ultimately show ?thesis by simp
  qed
  have c6: "parse_signup_date (Str ''01/02/2024'') = Inr \<lparr>year = 2024, month = 1, day = 2\<rparr>"
    by code_simp
  from len c3 c4 c5 c6 show ?thesis
    by (simp add: date_formats_def [symmetric])
qed

theorem date_formats_in_order_witness:
  "parse_signup_date (Str ''15/01/2024'') = Inr \<lparr>year = 2024, month = 1, day = 15\<rparr>
   \<and> strip_ordinals ''Jan 1st, 2024'' = ''Jan 1, 2024''
   \<and> parse_signup_date (Str ''Jan 1st, 2024'') = Inr \<lparr>year = 2024, month = 1, day = 1\<rparr>
   \<and> parse_signup_date (Str ''not-a-date'') = Inl ''Unable to parse date: not-a-date''"
proof -
  have len: "length date_formats = 13"
    by (simp add: date_formats_def)
  have none: "\<forall>j<13. strptime v (date_formats ! j) = None"
    if "try_formats v date_formats = None" for v
    using that len unfolding try_formats_None by simp
  have before: "\<forall>j<i. strptime v (date_formats ! j) = None"
    if "try_formats v (take i date_formats) = None" and "i \<le> 13" for v i
    using that len unfolding try_formats_None by simp
  have a1: "strptime (strip ''15/01/2024'') (date_formats ! 2) = Some \<lparr>year = 2024, month = 1, day = 15\<rparr>"
    by code_simp
  have a2: "try_formats (strip ''15/01/2024'') (take 2 date_formats) = None"
    by code_simp
  have a: "parse_signup_date (Str ''15/01/2024'') = Inr \<lparr>year = 2024, month = 1, day = 15\<rparr>"
    using date_formats_in_order [of 2 "''15/01/2024''" "\<lparr>year = 2024, month = 1, day = 15\<rparr>"]
      a1 before [OF a2] by simp
  have so: "strip_ordinals ''Jan 1st, 2024'' = ''Jan 1, 2024''"
    by code_simp
  have b0: "try_formats (strip ''Jan 1st, 2024'') date_formats = None"
    by code_simp
  have b1: "strptime (strip_ordinals (strip ''Jan 1st, 2024'')) (date_formats ! 4) = Some \<lparr>year = 2024, month = 1, day = 1\<rparr>"
    by code_simp
  have b2: "try_formats (strip_ordinals (strip ''Jan 1st, 2024'')) (take 4 date_formats) = None"
    by code_simp
  have b: "parse_signup_date (Str ''Jan 1st, 2024'') = Inr \<lparr>year = 2024, month = 1, day = 1\<rparr>"
    using date_formats_in_order [of 4 "''Jan 1st, 2024''" "\<lparr>year = 2024, month = 1, day = 1\<rparr>"]
      none [OF b0] b1 before [OF b2] by simp
  have c0: "try_formats (strip ''not-a-date'') date_formats = None"
    by code_simp
  have c1: "try_formats (strip_ordinals (strip ''not-a-date'')) date_formats = None"
    by code_simp
  have c2: "strip ''not-a-date'' = ''not-a-date''"
    by code_simp
  have c: "parse_signup_date (Str ''not-a-date'') = Inl ''Unable to parse date: not-a-date''"
    using date_formats_in_order [of _ "''not-a-date''"] none [OF c0] none [OF c1]
    by (simp add: c2)
  from a so b c show ?thesis by simp
qed

text \<open>
  The claim of C6 that the rejection message contains the original value fails for an
  input with trailing whitespace: the message holds the trimmed text only.
\<close>

theorem unparsable_date_message_is_trimmed:
  "parse_signup_date (Str ''abc '') = Inl ''Unable to parse date: abc''
   \<and> \<not> sublist ''abc '' ''Unable to parse date: abc''"
  by code_simp

section \<open>Properties of extraction\<close>

text \<open>The email pattern finds nothing in a text of whitespace only.\<close>

lemma isspace_not_local: "isspace c \<Longrightarrow> \<not> in_cls False email_local c"
  by (auto simp: isspace_def email_local_def code_def)

lemma matches_email_space: "isspace c \<Longrightarrow> matches False email_body (c # cs) = []"
  by (simp add: email_body_def isspace_not_local)

lemma findall_from_spaces:
  "\<forall>c \<in> set s. isspace c \<Longrightarrow> findall_from email_body k s = []"
proof (induction s arbitrary: k)
  case Nil
  then show ?case by simp
next
  case (Cons c cs)
  then show ?case by (simp add: matches_email_space)
qed

lemma dropWhile_Nil_all: "dropWhile P xs = [] \<Longrightarrow> \<forall>x \<in> set xs. P x"
  by (induction xs) (auto split: if_splits)

lemma strip_Nil_spaces: "strip s = [] \<Longrightarrow> \<forall>c \<in> set s. isspace c"
proof -
  assume "strip s = []"
  then have "dropWhile isspace (rev (dropWhile isspace s)) = []"
    by (simp add: strip_def)
  then have "\<forall>c \<in> set (rev (dropWhile isspace s)). isspace c"
    by (rule dropWhile_Nil_all)
  then have "dropWhile isspace s = []"
    by (metis dropWhile_eq_Nil_conv dropWhile_idem set_rev)
  then show ?thesis by (rule dropWhile_Nil_all)
qed

lemma regex_on_blank_text: "strip text = [] \<Longrightarrow> extract_from_text_with_regex today text = []"
  by (simp add: extract_from_text_with_regex_def findall_def findall_from_spaces strip_Nil_spaces)

lemma blank_pdf:
  "read_pages pages [] = (text, False) \<Longrightarrow> strip text = [] \<Longrightarrow>
   pdf_try client today pages = (text, Inl (ValueError ''No text content found in PDF''))
   \<and> extract_from_pdf client today pages = Inr []"
  by (simp add: pdf_try_def extract_from_pdf_def regex_on_blank_text)

lemma blank_docx:
  "strip (concat (map (\<lambda>p. p @ [CHR 0x0A]) paragraphs)) = [] \<Longrightarrow>
   docx_try client today (Some paragraphs) =
     (concat (map (\<lambda>p. p @ [CHR 0x0A]) paragraphs), Inl (ValueError ''No text content found in DOCX''))
   \<and> extract_from_docx client today (Some paragraphs) = Inr []"
  by (simp add: docx_try_def extract_from_docx_def regex_on_blank_text Let_def)

text \<open>
  C3 does not hold of the code.  For a PDF whose only text is blank, for a PDF without
  pages, and for a DOCX whose paragraphs are blank, the \<^verbatim>\<open>try\<close> body raises the
  ValueError that no text content was found, the handler of the same function catches
  it, and the call returns the empty list of records instead of failing.
\<close>

theorem blank_document_gives_empty_list:
  "pdf_try client today [Text ''   '', NoText] =
     ([CHR '' '', CHR '' '', CHR '' '', CHR 0x0A], Inl (ValueError ''No text content found in PDF''))
   \<and> extract_from_pdf client today [Text ''   '', NoText] = Inr []
   \<and> extract_from_pdf client today [] = Inr []
   \<and> extract_from_docx client today (Some [[], ''  '']) = Inr []"
proof -
  have s1: "strip [CHR '' '', CHR '' '', CHR '' '', CHR 0x0A] = []" by code_simp
  have s2: "strip [] = []" by code_simp
  have s3: "strip (concat (map (\<lambda>p. p @ [CHR 0x0A]) [[], ''  ''])) = []" by code_simp
  have r1: "read_pages [Text ''   '', NoText] [] = ([CHR '' '', CHR '' '', CHR '' '', CHR 0x0A], False)"
    by simp
  have r2: "read_pages [] [] = ([], False)" by simp
  from blank_pdf [OF r1 s1] blank_pdf [OF r2 s2] blank_docx [OF s3] show ?thesis
    by simp
qed

text \<open>The list comprehension over JSON objects, and the loop over table rows.\<close>

lemma records_of_invalid:
  "\<exists>kvs \<in> set objs. isl (new_CustomerRecord (kwargs kvs)) \<Longrightarrow> isl (records_of (map JObj objs))"
proof (induction objs)
  case Nil
  then show ?case by simp
next
  case (Cons kvs objs)
  show ?case
  proof (cases "new_CustomerRecord (kwargs kvs)")
    case (Inl e)
    then show ?thesis by simp
  next
    case (Inr customer)
    with Cons.prems have "\<exists>kvs \<in> set objs. isl (new_CustomerRecord (kwargs kvs))"
      by auto
    then have "isl (records_of (map JObj objs))"
      by (rule Cons.IH)
    with Inr show ?thesis
      by (cases "records_of (map JObj objs)") simp_all
  qed
qed

lemma records_of_valid:
  "\<forall>kvs \<in> set objs. \<not> isl (new_CustomerRecord (kwargs kvs)) \<Longrightarrow>
   records_of (map JObj objs) = Inr (map (\<lambda>kvs. projr (new_CustomerRecord (kwargs kvs))) objs)"
  by (induction objs) (auto split: sum.splits)

lemma rows_loop_filter:
  "rows_loop actual today rs =
     map projr (filter (\<lambda>r. \<not> isl r) (map (row_record actual today) rs))"
  by (induction rs) (auto split: sum.splits)

text \<open>
  C5. When the records of a JSON document are the objects \<open>objs\<close>, one object that
  the validator rejects makes the whole call fail, and without such an object the call
  returns the record of every object, in order.  For a table whose headers give a name
  and an email column, the call returns exactly the records of the rows that the
  validator accepts, in order: a rejected row is skipped and the loop goes on.
\<close>

theorem json_strict_table_permissive:
  "(records_data data = Inr (JArr (map JObj objs)) \<longrightarrow>
      (\<exists>kvs \<in> set objs. isl (new_CustomerRecord (kwargs kvs))) \<longrightarrow>
      isl (extract_from_json data))
   \<and> (records_data data = Inr (JArr (map JObj objs)) \<longrightarrow>
      (\<forall>kvs \<in> set objs. \<not> isl (new_CustomerRecord (kwargs kvs))) \<longrightarrow>
      extract_from_json data = Inr (map (\<lambda>kvs. projr (new_CustomerRecord (kwargs kvs))) objs))
   \<and> (actual_columns (columns df) ''customer_name'' \<noteq> None \<longrightarrow>
      actual_columns (columns df) ''email'' \<noteq> None \<longrightarrow>
      dataframe_to_records today df =
        Inr (map projr (filter (\<lambda>r. \<not> isl r)
               (map (row_record (actual_columns (columns df)) today) (rows df)))))"
  by (auto simp: extract_from_json_def records_of_invalid records_of_valid
        dataframe_to_records_def rows_loop_filter Let_def)

theorem json_strict_table_permissive_witness:
  "isl (extract_from_json (JObj [(''data'', JArr [
       JObj [(''customer_name'', JStr ''John Doe''), (''email'', JStr ''john@example.com''),
             (''subscription_tier'', JStr ''Professional''), (''signup_date'', JStr ''2024-01-15'')],
       JObj [(''customer_name'', JStr ''Jane Smith''),
             (''subscription_tier'', JStr ''Basic''), (''signup_date'', JStr ''2024-01-20'')]])]))
   \<and> dataframe_to_records \<lparr>year = 2026, month = 11, day = 4\<rparr>
        \<lparr>columns = [''customer_name'', ''email'', ''subscription_tier'', ''signup_date''],
         rows = [[''customer_name'' \<mapsto> Str ''John Doe'', ''email'' \<mapsto> Str ''john@example.com'',
                  ''subscription_tier'' \<mapsto> Str ''Professional'', ''signup_date'' \<mapsto> Str ''2024-01-15''],
                 [''customer_name'' \<mapsto> Str ''Jane Smith'', ''email'' \<mapsto> Other ''nan'',
                  ''subscription_tier'' \<mapsto> Str ''Basic'', ''signup_date'' \<mapsto> Str ''2024-01-20'']]\<rparr> =
       Inr [\<lparr>customer_name = ''John Doe'', email = ''john@example.com'', subscription_tier = PRO,
             signup_date = \<lparr>year = 2024, month = 1, day = 15\<rparr>\<rparr>]"
proof -
  let ?john = "[(''customer_name'', JStr ''John Doe''), (''email'', JStr ''john@example.com''),
             (''subscription_tier'', JStr ''Professional''), (''signup_date'', JStr ''2024-01-15'')]"
  let ?jane = "[(''customer_name'', JStr ''Jane Smith''),
             (''subscription_tier'', JStr ''Basic''), (''signup_date'', JStr ''2024-01-20'')]"
  let ?data = "JObj [(''data'', JArr [JObj ?john, JObj ?jane])]"
  let ?cols = "[''customer_name'', ''email'', ''subscription_tier'', ''signup_date'']"
  let ?r1 = "[''customer_name'' \<mapsto> Str ''John Doe'', ''email'' \<mapsto> Str ''john@example.com'',
                  ''subscription_tier'' \<mapsto> Str ''Professional'', ''signup_date'' \<mapsto> Str ''2024-01-15'']"
  let ?r2 = "[''customer_name'' \<mapsto> Str ''Jane Smith'', ''email'' \<mapsto> Other ''nan'',
                  ''subscription_tier'' \<mapsto> Str ''Basic'', ''signup_date'' \<mapsto> Str ''2024-01-20'']"
  let ?df = "\<lparr>columns = ?cols, rows = [?r1, ?r2]\<rparr>"
  have rd: "records_data ?data = Inr (JArr (map JObj [?john, ?jane]))"
    by (simp add: records_data_def)
  have bad: "isl (new_CustomerRecord (kwargs ?jane))"
    by code_simp
  have n: "actual_columns ?cols ''customer_name'' = Some ''customer_name''"
    by code_simp
  have e: "actual_columns ?cols ''email'' = Some ''email''"
    by code_simp
  have t: "actual_columns ?cols ''subscription_tier'' = Some ''subscription_tier''"
    by code_simp
  have d: "actual_columns ?cols ''signup_date'' = Some ''signup_date''"
    by code_simp
  have f1: "fill (actual_columns ?cols) \<lparr>year = 2026, month = 11, day = 4\<rparr> ?r1 required_fields Map.empty = Some ?r1"
    by (simp add: required_fields_def n e t d)
  have f2: "fill (actual_columns ?cols) \<lparr>year = 2026, month = 11, day = 4\<rparr> ?r2 required_fields Map.empty = Some ?r2"
    by (simp add: required_fields_def n e t d)
  have v1: "new_CustomerRecord ?r1 =
      Inr \<lparr>customer_name = ''John Doe'', email = ''john@example.com'', subscription_tier = PRO,
             signup_date = \<lparr>year = 2024, month = 1, day = 15\<rparr>\<rparr>"
    by code_simp
  have v2: "isl (new_CustomerRecord ?r2)"
    by code_simp
  from json_strict_table_permissive [of ?data "[?john, ?jane]" ?df "\<lparr>year = 2026, month = 11, day = 4\<rparr>"] rd bad
  have j: "isl (extract_from_json ?data)"
    by simp
  from json_strict_table_permissive [of ?data "[?john, ?jane]" ?df "\<lparr>year = 2026, month = 11, day = 4\<rparr>"] n e
  have "dataframe_to_records \<lparr>year = 2026, month = 11, day = 4\<rparr> ?df =
        Inr (map projr (filter (\<lambda>r. \<not> isl r)
               (map (row_record (actual_columns (columns ?df)) \<lparr>year = 2026, month = 11, day = 4\<rparr>) (rows ?df))))"
    by simp
  then have "dataframe_to_records \<lparr>year = 2026, month = 11, day = 4\<rparr> ?df =
       Inr [\<lparr>customer_name = ''John Doe'', email = ''john@example.com'', subscription_tier = PRO,
             signup_date = \<lparr>year = 2024, month = 1, day = 15\<rparr>\<rparr>]"
    using v1 v2 by (simp add: row_record_def f1 f2)
  with j show ?thesis by simp
qed

section \<open>Properties of the text fallback\<close>

text \<open>
  What a match of an anchor-free pattern is: the input splits into the matched text
  and the rest, the matched text matches in front of any continuation, and each of its
  characters lies in a class of the pattern.
\<close>

lemma takeWhile_take_self:
  "j \<le> length (takeWhile P s) \<Longrightarrow> \<forall>x \<in> set (take j s). P x"
proof -
  assume j: "j \<le> length (takeWhile P s)"
  have "take j s = take j (takeWhile P s)"
    by (metis j takeWhile_dropWhile_id take_append diff_is_0_eq take_0 append_Nil2)
  then have "set (take j s) \<subseteq> set (takeWhile P s)"
    by (metis set_take_subset)
  then show ?thesis
    by (auto dest: set_takeWhileD)
qed

lemma takeWhile_append_all:
  "\<forall>x \<in> set pre. P x \<Longrightarrow> takeWhile P (pre @ t) = pre @ takeWhile P t"
  by (induction pre) auto

lemma matches_split:
  "no_end p \<Longrightarrow> r \<in> set (matches ic p s) \<Longrightarrow>
   \<exists>pre. s = pre @ r \<and> (\<forall>t. t \<in> set (matches ic p (pre @ t)))
         \<and> (\<forall>x \<in> set pre. \<exists>c \<in> set (rx_classes p). in_cls ic c x)"
proof (induction p arbitrary: s r)
  case (Atom c)
  then obtain x where "s = x # r" "in_cls ic c x"
    by (cases s) (auto split: if_splits)
  then show ?case
    by (intro exI [of _ "[x]"]) simp
next
  case (Many c n)
  let ?k = "length (takeWhile (in_cls ic c) s)"
  from Many.prems(2) obtain j where j: "n \<le> j" "j \<le> ?k" "r = drop j s"
    by auto
  have jl: "j \<le> length s"
    using j(2) length_takeWhile_le [of "in_cls ic c" s] by simp
  have allc: "\<forall>x \<in> set (take j s). in_cls ic c x"
    using j(2) by (rule takeWhile_take_self)
  have ext: "t \<in> set (matches ic (Many c n) (take j s @ t))" for t
  proof -
    have "takeWhile (in_cls ic c) (take j s @ t) = take j s @ takeWhile (in_cls ic c) t"
      using allc by (rule takeWhile_append_all)
    then have "j \<le> length (takeWhile (in_cls ic c) (take j s @ t))"
      using jl by simp
    moreover have "drop j (take j s @ t) = t"
      using jl by simp
    ultimately show ?thesis
      using j(1) by (force simp: image_iff)
  qed
  show ?case
    using j(3) allc ext by (intro exI [of _ "take j s"]) simp
next
  case (Seq a b)
  from Seq.prems obtain r1 where r1: "r1 \<in> set (matches ic a s)" "r \<in> set (matches ic b r1)"
    by auto
  from Seq.IH(1) [OF _ r1(1)] Seq.prems(1) obtain p1
    where p1: "s = p1 @ r1" "\<forall>t. t \<in> set (matches ic a (p1 @ t))"
      "\<forall>x \<in> set p1. \<exists>c \<in> set (rx_classes a). in_cls ic c x"
    by auto
  from Seq.IH(2) [OF _ r1(2)] Seq.prems(1) obtain p2
    where p2: "r1 = p2 @ r" "\<forall>t. t \<in> set (matches ic b (p2 @ t))"
      "\<forall>x \<in> set p2. \<exists>c \<in> set (rx_classes b). in_cls ic c x"
    by auto
  have ext: "t \<in> set (matches ic (Seq a b) ((p1 @ p2) @ t))" for t
  proof -
    have "p2 @ t \<in> set (matches ic a (p1 @ p2 @ t))" using p1(2) by blast
    moreover have "t \<in> set (matches ic b (p2 @ t))" using p2(2) by blast
    ultimately show ?thesis by auto
  qed
  have cl: "\<forall>x \<in> set (p1 @ p2). \<exists>c \<in> set (rx_classes (Seq a b)). in_cls ic c x"
    using p1(3) p2(3) by auto
  show ?case
    using p1(1) p2(1) ext cl by (intro exI [of _ "p1 @ p2"]) simp
next
  case (Alt a b)
  from Alt.prems have "r \<in> set (matches ic a s) \<or> r \<in> set (matches ic b s)"
    by auto
  then show ?case
  proof
    assume "r \<in> set (matches ic a s)"
    from Alt.IH(1) [OF _ this] Alt.prems(1) obtain pre
      where "s = pre @ r" "\<forall>t. t \<in> set (matches ic a (pre @ t))"
        "\<forall>x \<in> set pre. \<exists>c \<in> set (rx_classes a). in_cls ic c x"
      by auto
    then show ?thesis
      by (intro exI [of _ pre]) auto
  next
    assume "r \<in> set (matches ic b s)"
    from Alt.IH(2) [OF _ this] Alt.prems(1) obtain pre
      where "s = pre @ r" "\<forall>t. t \<in> set (matches ic b (pre @ t))"
        "\<forall>x \<in> set pre. \<exists>c \<in> set (rx_classes b). in_cls ic c x"
      by auto
    then show ?thesis
      by (intro exI [of _ pre]) auto
  qed
next
  case Eps
  then show ?case by simp
next
  case End
  then show ?case by simp
qed


text \<open>Matching commutes with a map on characters that respects the classes of the pattern.\<close>

lemma matches_map:
  "no_end p \<Longrightarrow> \<forall>c \<in> set (rx_classes p). \<forall>x. in_cls ic c (f x) = in_cls ic c x \<Longrightarrow>
   matches ic p (map f s) = map (map f) (matches ic p s)"
proof (induction p arbitrary: s)
  case (Atom c)
  then show ?case by (cases s) auto
next
  case (Many c n)
  then have "in_cls ic c \<circ> f = in_cls ic c"
    by (auto simp: fun_eq_iff)
  then have "takeWhile (in_cls ic c) (map f s) = map f (takeWhile (in_cls ic c) s)"
    by (simp add: takeWhile_map)
  then show ?case
    by (simp add: drop_map)
next
  case (Seq a b)
  then have a: "matches ic a (map f s) = map (map f) (matches ic a s)"
    and b: "\<And>r. matches ic b (map f r) = map (map f) (matches ic b r)"
    by auto
  show ?case
    by (simp add: a b map_concat comp_def)
next
  case (Alt a b)
  then show ?case by auto
next
  case Eps
  then show ?case by simp
next
  case End
  then show ?case by simp
qed

lemma code_lower_upper: "isupper x \<Longrightarrow> (of_char (lower_char x) :: nat) = of_char x + 32"
  by (auto simp: lower_char_def isupper_def code_def)

lemma lower_char_keeps:
  "\<not> isupper x \<Longrightarrow> lower_char x = x"
  by (simp add: lower_char_def)

lemma in_range_Ch: "in_range (Ch c) x \<longleftrightarrow> (of_char x :: nat) = of_char c"
  by simp

lemma lower_respects_email:
  "c \<in> set (rx_classes email_body) \<Longrightarrow> in_cls False c (lower_char x) = in_cls False c x"
proof (cases "isupper x")
  case False
  then show ?thesis by (simp add: lower_char_keeps)
next
  case True
  then have u: "((65::nat) \<le> of_char x \<and> (of_char x :: nat) \<le> 90)
      \<or> ((192::nat) \<le> of_char x \<and> (of_char x :: nat) \<le> 214)
      \<or> ((216::nat) \<le> of_char x \<and> (of_char x :: nat) \<le> 222)"
    by (simp add: isupper_def code_def)
  assume "c \<in> set (rx_classes email_body)"
  then consider "c = email_local" | "c = Class [Ch CHR ''@'']" | "c = email_domain"
    | "c = Class [Ch CHR ''.'']" | "c = alpha"
    by (auto simp: email_body_def)
  then show ?thesis
  proof cases
    case 1
    with u show ?thesis
      by (auto simp: email_local_def in_range_Ch code_lower_upper [OF True] code_def
            simp del: in_range.simps(1))
  next
    case 2
    with u show ?thesis
      by (auto simp: in_range_Ch code_lower_upper [OF True] code_def simp del: in_range.simps(1))
  next
    case 3
    with u show ?thesis
      by (auto simp: email_domain_def in_range_Ch code_lower_upper [OF True] code_def
            simp del: in_range.simps(1))
  next
    case 4
    with u show ?thesis
      by (auto simp: in_range_Ch code_lower_upper [OF True] code_def simp del: in_range.simps(1))
  next
    case 5
    with u show ?thesis
      by (auto simp: alpha_def in_range_Ch code_lower_upper [OF True] code_def
            simp del: in_range.simps(1))
  qed
qed

text \<open>Every email that the scan reports passes the email check of the validator.\<close>

lemma findall_from_match:
  "m \<in> set (findall_from p k s) \<Longrightarrow>
   \<exists>s' rest rs. matches False p s' = rest # rs \<and> m = take (length s' - length rest) s'"
proof (induction s arbitrary: k)
  case Nil
  then show ?case by simp
next
  case (Cons c cs)
  show ?case
  proof (cases "0 < k")
    case True
    with Cons.prems have "m \<in> set (findall_from p (k - 1) cs)" by simp
    then show ?thesis by (rule Cons.IH)
  next
    case False
    show ?thesis
    proof (cases "matches False p (c # cs)")
      case Nil
      with False Cons.prems have "m \<in> set (findall_from p 0 cs)" by simp
      then show ?thesis by (rule Cons.IH)
    next
      case (Cons rest rs)
      with False Cons.prems
      have "m = take (length (c # cs) - length rest) (c # cs)
            \<or> m \<in> set (findall_from p (length (c # cs) - length rest - 1) cs)"
        by (auto simp: Let_def)
      then show ?thesis
      proof
        assume "m = take (length (c # cs) - length rest) (c # cs)"
        with Cons show ?thesis by blast
      next
        assume "m \<in> set (findall_from p (length (c # cs) - length rest - 1) cs)"
        then show ?thesis by (rule Cons.IH)
      qed
    qed
  qed
qed

lemma no_end_email_body: "no_end email_body"
  by (simp add: email_body_def)

lemma email_class_not_space:
  "c \<in> set (rx_classes email_body) \<Longrightarrow> in_cls False c x \<Longrightarrow> \<not> isspace x"
  by (auto simp: email_body_def email_local_def email_domain_def alpha_def isspace_def code_def)

lemma found_email:
  assumes "m \<in> set (findall email_body text)"
  shows "[] \<in> set (matches False email_body m)" and "\<forall>x \<in> set m. \<not> isspace x" and "m \<noteq> []"
proof -
  from assms obtain s' rest rs
    where mt: "matches False email_body s' = rest # rs" and m: "m = take (length s' - length rest) s'"
    unfolding findall_def by (blast dest: findall_from_match)
  from mt have "rest \<in> set (matches False email_body s')" by simp
  from matches_split [OF no_end_email_body this] obtain pre
    where pre: "s' = pre @ rest" "\<forall>t. t \<in> set (matches False email_body (pre @ t))"
      "\<forall>x \<in> set pre. \<exists>c \<in> set (rx_classes email_body). in_cls False c x"
    by blast
  from m pre(1) have mp: "m = pre" by simp
  from pre(2) have "[] \<in> set (matches False email_body (pre @ []))" by blast
  with mp show 1: "[] \<in> set (matches False email_body m)" by simp
  from pre(3) mp show "\<forall>x \<in> set m. \<not> isspace x"
    by (blast dest: email_class_not_space)
  have "matches False email_body [] = []"
    by (simp add: email_body_def)
  with 1 show "m \<noteq> []" by auto
qed

lemma strip_no_space: "\<forall>x \<in> set s. \<not> isspace x \<Longrightarrow> strip s = s"
proof -
  assume a: "\<forall>x \<in> set s. \<not> isspace x"
  then have "dropWhile isspace s = s"
    by (cases s) auto
  moreover from a have "dropWhile isspace (rev s) = rev s"
    by (cases "rev s") (auto simp: dropWhile_eq_self_iff)
  ultimately show ?thesis by (simp add: strip_def)
qed

lemma found_email_valid:
  assumes "m \<in> set (findall email_body text)"
  shows "validate_email m = Inr (lower m)"
proof -
  from found_email [OF assms] have e: "[] \<in> set (matches False email_body m)"
    and ns: "\<forall>x \<in> set m. \<not> isspace x" by blast+
  have "matches False email_body (map lower_char m) = map (map lower_char) (matches False email_body m)"
    by (rule matches_map [OF no_end_email_body]) (simp add: lower_respects_email)
  with e have "[] \<in> set (matches False email_body (lower m))"
    by (force simp: lower_def)
  then have "[] \<in> set (matches False (Seq email_body End) (lower m))"
    by (auto intro!: bexI [of _ "[]"])
  then have "re_match (Seq email_body End) (lower m)"
    unfolding re_match_def by auto
  with strip_no_space [OF ns] show ?thesis
    by (simp add: validate_email_def)
qed


text \<open>The name chosen for a candidate is never blank.\<close>

lemma hd_strip_not_space:
  assumes "strip s \<noteq> []"
  shows "\<not> isspace (hd (strip s))"
proof -
  let ?a = "dropWhile isspace s"
  let ?b = "dropWhile isspace (rev ?a)"
  from assms have b: "?b \<noteq> []"
    unfolding strip_def by (simp only: rev_is_Nil_conv not_False_eq_True)
  have a: "?a \<noteq> []"
  proof
    assume h: "?a = []"
    have "?b = []" unfolding h by simp
    with b show False by blast
  qed
  have "?b = drop (length (takeWhile isspace (rev ?a))) (rev ?a)"
    by (rule dropWhile_eq_drop)
  moreover from b have "length (takeWhile isspace (rev ?a)) < length (rev ?a)"
    by (metis calculation drop_all not_le_imp_less)
  ultimately have "last ?b = last (rev ?a)"
    by (metis last_drop)
  then have "hd (strip s) = hd ?a"
    using a b by (simp add: strip_def hd_rev last_rev)
  with a show ?thesis
    by (metis hd_dropWhile)
qed

lemma strip_not_Nil: "s \<noteq> [] \<Longrightarrow> \<not> isspace (hd s) \<Longrightarrow> strip s \<noteq> []"
proof
  assume "s \<noteq> []" "\<not> isspace (hd s)" "strip s = []"
  from strip_Nil_spaces [OF this(3)] this(1,2) show False
    by (cases s) auto
qed

lemma isspace_lower_char: "isspace (lower_char c) = isspace c"
  by (auto simp: lower_char_def isupper_def isspace_def code_def)

lemma isspace_upper_char: "isspace (upper_char c) = isspace c"
  by (auto simp: upper_char_def islower_def isspace_def code_def)

lemma title_from_hd:
  "w \<noteq> [] \<Longrightarrow> title_from b w \<noteq> [] \<and> isspace (hd (title_from b w)) = isspace (hd w)"
  by (cases w) (simp_all add: isspace_lower_char isspace_upper_char)

lemma length_title_from: "length (title_from b w) = length w"
  by (induction w arbitrary: b) simp_all

lemma strip_Unknown: "strip ''Unknown'' = ''Unknown''"
  by code_simp

lemma name_for_not_blank: "strip (name_for m lines) \<noteq> []"
proof (induction lines)
  case Nil
  then show ?case by (simp add: strip_Unknown)
next
  case (Cons line lines)
  show ?case
  proof (cases "before_first m line")
    case None
    with Cons.IH show ?thesis by simp
  next
    case (Some h)
    show ?thesis
    proof (cases "strip h \<noteq> [] \<and> length (split (strip h)) \<le> 3")
      case True
      then have "\<not> isspace (hd (strip h))"
        by (simp add: hd_strip_not_space)
      with True title_from_hd [of "strip h" False]
      have "strip (title (strip h)) \<noteq> []"
        by (intro strip_not_Nil) (simp_all add: title_def)
      with Some True show ?thesis by (simp add: Let_def)
    next
      case False
      with Some show ?thesis by (auto simp: Let_def strip_Unknown)
    qed
  qed
qed

lemma strip_Nil: "strip [] = []"
  by (simp add: strip_def)

lemma check_name_for:
  "check_customer_name (Some (Str (name_for m lines))) =
     (if 255 < length (name_for m lines) then Inl String_too_long
      else Inr (join '' '' (split (strip (name_for m lines)))))"
proof -
  have ns: "strip (name_for m lines) \<noteq> []"
    by (rule name_for_not_blank)
  then have "name_for m lines \<noteq> []"
    using strip_Nil by auto
  with ns show ?thesis
    by (auto simp: check_customer_name_def validate_name_def)
qed

text \<open>
  The text of a calendar date in the format \<^verbatim>\<open>%Y-%m-%d\<close> parses back to that date
  with the first format of the list.
\<close>

lemma char_of_digits:
  "char_of (48::nat) = CHR ''0''" "char_of (49::nat) = CHR ''1''" "char_of (50::nat) = CHR ''2''"
  "char_of (51::nat) = CHR ''3''" "char_of (52::nat) = CHR ''4''" "char_of (53::nat) = CHR ''5''"
  "char_of (54::nat) = CHR ''6''" "char_of (55::nat) = CHR ''7''" "char_of (56::nat) = CHR ''8''"
  "char_of (57::nat) = CHR ''9''"
  by code_simp+

lemma code_digit_char: "code (digit_char n) = 48 + n mod 10"
  by (simp add: code_def digit_char_def)

lemma isdecimal_digit_char: "isdecimal (digit_char n)"
  by (simp add: isdecimal_def code_digit_char)

lemma not_space_digit_char: "\<not> isspace (digit_char n)"
proof -
  have "n mod 10 < 10" by simp
  then show ?thesis
    unfolding isspace_def code_digit_char by linarith
qed

lemma pattern_ymd: "pattern ''%Y-%m-%d'' = [DY, DLit CHR ''-'', Dm, DLit CHR ''-'', Dd]"
  by code_simp

lemma matches_DY:
  "isdecimal a \<Longrightarrow> isdecimal b \<Longrightarrow> isdecimal c \<Longrightarrow> isdecimal d \<Longrightarrow>
   matches True (rx_of DY) ([a, b, c, d] @ r) = [r]"
  by simp

lemma matches_dash: "matches True (rx_of (DLit CHR ''-'')) ([CHR ''-''] @ r) = [r]"
  by simp

lemma matches_dash_digit: "matches True (rx_of (DLit CHR ''-'')) (digit_char n # r) = []"
proof -
  have m: "n mod 10 < 10" by simp
  have c: "code (digit_char n) \<noteq> 45"
    unfolding code_digit_char by simp
  have l: "lower_char (digit_char n) = digit_char n"
    using m unfolding lower_char_def isupper_def code_digit_char by auto
  have u: "upper_char (digit_char n) = digit_char n"
    using m unfolding upper_char_def code_digit_char by auto
  have "code (CHR ''-'') = 45" by (simp add: code_def)
  with c have "digit_char n \<noteq> CHR ''-''" by auto
  then show ?thesis
    by (simp add: l u)
qed

lemma matches_Dm:
  assumes "1 \<le> m" "m \<le> 12"
  shows "matches True (rx_of Dm) ([digit_char (m div 10), digit_char m] @ r) =
           (if m < 10 then [r] else [r, digit_char m # r])"
proof -
  from assms have "m = 1 \<or> m = 2 \<or> m = 3 \<or> m = 4 \<or> m = 5 \<or> m = 6 \<or> m = 7 \<or> m = 8 \<or> m = 9
      \<or> m = 10 \<or> m = 11 \<or> m = 12"
    by arith
  then show ?thesis
    by (elim disjE)
       (simp_all add: digit_char_def char_of_digits digit_rng_def code_def lower_char_def
          upper_char_def isupper_def islower_def)
qed


lemma matches_Dd:
  assumes "1 \<le> d" "d \<le> 31"
  shows "matches True (rx_of Dd) ([digit_char (d div 10), digit_char d] @ []) =
           (if d < 10 then [[]] else [[], [digit_char d]])"
proof -
  from assms have "d = 1 \<or> d = 2 \<or> d = 3 \<or> d = 4 \<or> d = 5 \<or> d = 6 \<or> d = 7 \<or> d = 8 \<or> d = 9
      \<or> d = 10 \<or> d = 11 \<or> d = 12 \<or> d = 13 \<or> d = 14 \<or> d = 15 \<or> d = 16 \<or> d = 17 \<or> d = 18
      \<or> d = 19 \<or> d = 20 \<or> d = 21 \<or> d = 22 \<or> d = 23 \<or> d = 24 \<or> d = 25 \<or> d = 26 \<or> d = 27
      \<or> d = 28 \<or> d = 29 \<or> d = 30 \<or> d = 31"
    by arith
  then show ?thesis
    by (elim disjE)
       (simp_all add: digit_char_def char_of_digits digit_rng_def code_def lower_char_def
          upper_char_def isupper_def islower_def isdecimal_def)
qed

lemma run_step:
  "matches True (rx_of d) (pre @ r) = r # rs \<Longrightarrow> run ds r = (caps, rest) # tl1 \<Longrightarrow>
   \<exists>tl2. run (d # ds) (pre @ r) = ((d, pre) # caps, rest) # tl2"
  by simp

lemma run_step_dash:
  "run ds r = (caps, rest) # tl1 \<Longrightarrow>
   \<exists>tl2. run (DLit CHR ''-'' # ds) ([CHR ''-''] @ r) = ((DLit CHR ''-'', [CHR ''-'']) # caps, rest) # tl2"
  by (rule run_step [OF matches_dash])

lemma run_Dd:
  assumes "1 \<le> d" "d \<le> 31"
  shows "\<exists>tl1. run [Dd] ([digit_char (d div 10), digit_char d] @ []) =
           ([(Dd, [digit_char (d div 10), digit_char d])], []) # tl1"
proof (cases "d < 10")
  case True
  with matches_Dd [OF assms]
  have "matches True (rx_of Dd) ([digit_char (d div 10), digit_char d] @ []) = [] # []"
    by simp
  from run_step [OF this, of "[]" "[]" "[]" "[]"] show ?thesis by simp
next
  case False
  with matches_Dd [OF assms]
  have "matches True (rx_of Dd) ([digit_char (d div 10), digit_char d] @ []) = [] # [[digit_char d]]"
    by simp
  from run_step [OF this, of "[]" "[]" "[]" "[]"] show ?thesis by simp
qed

lemma run_Dm:
  assumes "1 \<le> m" "m \<le> 12" "run ds r = (caps, rest) # tl1"
  shows "\<exists>tl2. run (Dm # ds) ([digit_char (m div 10), digit_char m] @ r) =
           ((Dm, [digit_char (m div 10), digit_char m]) # caps, rest) # tl2"
proof -
  from matches_Dm [OF assms(1,2), of r]
  obtain rs where "matches True (rx_of Dm) ([digit_char (m div 10), digit_char m] @ r) = r # rs"
    by (cases "m < 10") simp_all
  from run_step [OF this assms(3)] show ?thesis .
qed

lemma run_DY:
  assumes "run ds r = (caps, rest) # tl1"
  shows "\<exists>tl2. run (DY # ds) ([digit_char a, digit_char b, digit_char c, digit_char d] @ r) =
           ((DY, [digit_char a, digit_char b, digit_char c, digit_char d]) # caps, rest) # tl2"
  by (rule run_step [OF matches_DY assms]) (rule isdecimal_digit_char)+

lemma int_of_digits:
  "int_of (map digit_char ns) = foldl (\<lambda>n k. 10 * n + k mod 10) 0 ns"
proof -
  have "strip (map digit_char ns) = map digit_char ns"
    by (rule strip_no_space) (auto simp: not_space_digit_char)
  moreover have "foldl (\<lambda>n c. 10 * n + (code c - 48)) a (map digit_char ns)
      = foldl (\<lambda>n k. 10 * n + k mod 10) a ns" for a
    by (induction ns arbitrary: a) (simp_all add: code_digit_char)
  ultimately show ?thesis by (simp add: int_of_def)
qed

lemma two_digits: "n \<le> 99 \<Longrightarrow> 10 * (n div 10 mod 10) + n mod 10 = (n::nat)"
proof -
  assume "n \<le> 99"
  then have "n div 10 < 10" by simp
  then have "n div 10 mod 10 = n div 10" by simp
  then show ?thesis by simp
qed

lemma horner4:
  "a3 = q3 \<Longrightarrow> q2 = 10 * q3 + a2 \<Longrightarrow> q1 = 10 * q2 + a1 \<Longrightarrow> y = 10 * q1 + a0 \<Longrightarrow>
   10 * (10 * (10 * a3 + a2) + a1) + a0 = (y::nat)"
  by simp

lemma four_digits: "y \<le> 9999 \<Longrightarrow>
    10 * (10 * (10 * (y div 1000 mod 10) + y div 100 mod 10) + y div 10 mod 10) + y mod 10 = (y::nat)"
proof -
  assume "y \<le> 9999"
  then have "y div 1000 < 10" by simp
  then have a: "y div 1000 mod 10 = y div 1000" by simp
  have b: "y div 100 = 10 * (y div 1000) + y div 100 mod 10"
    using div_mult_mod_eq [of "y div 100" 10] by (simp add: div_mult2_eq [symmetric])
  have c: "y div 10 = 10 * (y div 100) + y div 10 mod 10"
    using div_mult_mod_eq [of "y div 10" 10] by (simp add: div_mult2_eq [symmetric])
  have d: "y = 10 * (y div 10) + y mod 10"
    by simp
  from a b c d show ?thesis by (rule horner4)
qed

lemma digits_value:
  "foldl (\<lambda>n k. 10 * n + k mod 10) 0 [a, b, c, d] =
     10 * (10 * (10 * (a mod 10) + b mod 10) + c mod 10) + d mod (10::nat)"
  "foldl (\<lambda>n k. 10 * n + k mod 10) 0 [a, b] = 10 * (a mod 10) + b mod (10::nat)"
  by simp_all

lemma not_space_dash: "\<not> isspace CHR ''-''"
  by (simp add: isspace_def code_def)

lemma mk_date_bounds:
  assumes "mk_date y m d = Some t"
  shows "1 \<le> y" "y \<le> 9999" "1 \<le> m" "m \<le> 12" "1 \<le> d" "d \<le> 31"
proof -
  have "days_in_month y m \<le> 31"
    by (simp add: days_in_month_def)
  with assms show "1 \<le> y" "y \<le> 9999" "1 \<le> m" "m \<le> 12" "1 \<le> d" "d \<le> 31"
    by (auto simp: mk_date_def split: if_splits)
qed

lemma strptime_strftime_ymd:
  assumes "mk_date (year t) (month t) (day t) = Some t"
  shows "strptime (strftime_ymd t) ''%Y-%m-%d'' = Some t"
proof -
  note b = mk_date_bounds [OF assms]
  let ?Y = "[digit_char (year t div 1000), digit_char (year t div 100), digit_char (year t div 10),
             digit_char (year t)]"
  let ?M = "[digit_char (month t div 10), digit_char (month t)]"
  let ?D = "[digit_char (day t div 10), digit_char (day t)]"
  have v: "strftime_ymd t = ?Y @ ([CHR ''-''] @ (?M @ ([CHR ''-''] @ (?D @ []))))"
    by (simp add: strftime_ymd_def)
  from run_Dd [OF b(5,6)] obtain t1
    where "run [Dd] (?D @ []) = ([(Dd, ?D)], []) # t1" by blast
  from run_step_dash [OF this] obtain t2
    where "run [DLit CHR ''-'', Dd] ([CHR ''-''] @ (?D @ [])) =
             ([(DLit CHR ''-'', [CHR ''-'']), (Dd, ?D)], []) # t2" by blast
  from run_Dm [OF b(3,4) this] obtain t3
    where "run [Dm, DLit CHR ''-'', Dd] (?M @ ([CHR ''-''] @ (?D @ []))) =
             ([(Dm, ?M), (DLit CHR ''-'', [CHR ''-'']), (Dd, ?D)], []) # t3" by blast
  from run_step_dash [OF this] obtain t4
    where "run [DLit CHR ''-'', Dm, DLit CHR ''-'', Dd] ([CHR ''-''] @ (?M @ ([CHR ''-''] @ (?D @ [])))) =
             ([(DLit CHR ''-'', [CHR ''-'']), (Dm, ?M), (DLit CHR ''-'', [CHR ''-'']), (Dd, ?D)], []) # t4"
    by blast
  from run_DY [OF this] obtain t5
    where r: "run [DY, DLit CHR ''-'', Dm, DLit CHR ''-'', Dd]
             (?Y @ ([CHR ''-''] @ (?M @ ([CHR ''-''] @ (?D @ []))))) =
             ([(DY, ?Y), (DLit CHR ''-'', [CHR ''-'']), (Dm, ?M), (DLit CHR ''-'', [CHR ''-'']), (Dd, ?D)], []) # t5"
    by blast
  have "int_of ?Y = int_of (map digit_char [year t div 1000, year t div 100, year t div 10, year t])"
    by simp
  also have "\<dots> = 10 * (10 * (10 * (year t div 1000 mod 10) + year t div 100 mod 10)
                 + year t div 10 mod 10) + year t mod 10"
    unfolding int_of_digits by (rule digits_value)
  also have "\<dots> = year t"
    using b(2) by (rule four_digits)
  finally have iy: "int_of ?Y = year t" .
  have "int_of ?M = int_of (map digit_char [month t div 10, month t])"
    by simp
  also have "\<dots> = 10 * (month t div 10 mod 10) + month t mod 10"
    unfolding int_of_digits by (rule digits_value)
  also have "\<dots> = month t"
    using b(4) by (intro two_digits) simp
  finally have im: "int_of ?M = month t" .
  have "int_of ?D = int_of (map digit_char [day t div 10, day t])"
    by simp
  also have "\<dots> = 10 * (day t div 10 mod 10) + day t mod 10"
    unfolding int_of_digits by (rule digits_value)
  also have "\<dots> = day t"
    using b(6) by (intro two_digits) simp
  finally have id: "int_of ?D = day t" .
  have f: "foldr set_field
        [(DY, ?Y), (DLit CHR ''-'', [CHR ''-'']), (Dm, ?M), (DLit CHR ''-'', [CHR ''-'']), (Dd, ?D)]
        (1900, 1, 1) = (year t, month t, day t)"
    by (simp add: iy im id)
  show ?thesis
    unfolding strptime_def pattern_ymd v r
    by (simp only: list.case prod.case f assms) simp
qed

lemma parse_strftime_ymd:
  assumes "mk_date (year t) (month t) (day t) = Some t"
  shows "parse_signup_date (Str (strftime_ymd t)) = Inr t"
proof -
  have "strip (strftime_ymd t) = strftime_ymd t"
    by (rule strip_no_space) (auto simp: strftime_ymd_def not_space_digit_char not_space_dash)
  moreover have "try_formats (strftime_ymd t) date_formats = Some t"
    by (simp add: date_formats_def strptime_strftime_ymd [OF assms])
  ultimately show ?thesis by simp
qed

text \<open>The text before the first occurrence of a needle.\<close>

lemma before_first_None: "before_first m l = None \<longleftrightarrow> \<not> sublist m l"
proof (induction l)
  case Nil
  then show ?case by simp
next
  case (Cons c cs)
  then show ?case
    by (simp add: sublist_Cons_right)
qed

lemma before_first_Some:
  "before_first m l = Some h \<Longrightarrow> \<exists>t. l = h @ m @ t"
proof (induction l arbitrary: h)
  case Nil
  then show ?case by (simp split: if_splits)
next
  case (Cons c cs)
  show ?case
  proof (cases "prefix m (c # cs)")
    case True
    with Cons.prems have "h = []" by simp
    with True show ?thesis by (auto simp: prefix_def)
  next
    case False
    with Cons.prems obtain h0 where h0: "before_first m cs = Some h0" "h = c # h0"
      by auto
    from Cons.IH [OF h0(1)] h0(2) show ?thesis by auto
  qed
qed

lemma before_first_least:
  "before_first m l = Some h \<Longrightarrow> l = h' @ m @ t' \<Longrightarrow> length h \<le> length h'"
proof (induction l arbitrary: h h')
  case Nil
  then show ?case by (simp split: if_splits)
next
  case (Cons c cs)
  show ?case
  proof (cases "prefix m (c # cs)")
    case True
    with Cons.prems(1) show ?thesis by simp
  next
    case False
    with Cons.prems(1) obtain h0 where h0: "before_first m cs = Some h0" "h = c # h0"
      by auto
    from False Cons.prems(2) have "h' \<noteq> []"
      by (auto simp: prefix_def)
    with Cons.prems(2) obtain h1 where h1: "h' = c # h1" "cs = h1 @ m @ t'"
      by (cases h') auto
    from Cons.IH [OF h0(1) h1(2)] h0(2) h1(1) show ?thesis by simp
  qed
qed

lemma name_for_find:
  "name_for m lines =
     (case find (sublist m) lines of
        None \<Rightarrow> ''Unknown''
      | Some line \<Rightarrow>
          (let w = strip (the (before_first m line))
           in if w \<noteq> [] \<and> length (split w) \<le> 3 then title w else ''Unknown''))"
proof (induction lines)
  case Nil
  then show ?case by simp
next
  case (Cons line lines)
  show ?case
  proof (cases "before_first m line")
    case None
    then have "\<not> sublist m line" by (simp add: before_first_None)
    with None Cons.IH show ?thesis by simp
  next
    case (Some h)
    then have "sublist m line"
      using before_first_None [of m line] by simp
    with Some show ?thesis by simp
  qed
qed

text \<open>The record built for one matched email.\<close>

lemma normalize_Basic: "normalize_subscription_tier (Str ''Basic'') = BASIC"
  by code_simp

lemma candidate_record:
  assumes "mk_date (year today) (month today) (day today) = Some today"
    and "m \<in> set (findall email_body text)"
  shows "new_CustomerRecord (customer_data_for today text m) =
     (if 255 < length (name_for m (split_on (CHR 0x0A) text))
      then Inl (ValidationError [(''customer_name'', String_too_long)])
      else Inr \<lparr>customer_name = join '' '' (split (strip (name_for m (split_on (CHR 0x0A) text)))),
                email = lower m, subscription_tier = BASIC, signup_date = today\<rparr>)"
proof -
  let ?data = "customer_data_for today text m"
  have "filter (\<lambda>f. ?data f = None) required_fields = []"
    by (simp add: required_fields_def customer_data_for_def)
  then have vm: "validate_model ?data = Inr ?data"
    by (simp add: validate_model_def)
  have n: "check_customer_name (?data ''customer_name'') =
      (if 255 < length (name_for m (split_on (CHR 0x0A) text)) then Inl String_too_long
       else Inr (join '' '' (split (strip (name_for m (split_on (CHR 0x0A) text))))))"
    by (simp add: customer_data_for_def check_name_for)
  have e: "check_email (?data ''email'') = Inr (lower m)"
    by (simp add: customer_data_for_def check_email_def found_email_valid [OF assms(2)])
  have t: "check_subscription_tier (?data ''subscription_tier'') = Inr BASIC"
    by (simp add: customer_data_for_def check_subscription_tier_def normalize_Basic
          del: normalize_subscription_tier.simps)
  have d: "check_signup_date (?data ''signup_date'') = Inr today"
    by (simp add: customer_data_for_def check_signup_date_def parse_strftime_ymd [OF assms(1)]
          del: parse_signup_date.simps)
  show ?thesis
    unfolding new_CustomerRecord_def vm
    by (simp add: n e t d Let_def field_error_def)
qed

lemma candidates_map:
  assumes "mk_date (year today) (month today) (day today) = Some today"
  shows "\<forall>m \<in> set ms. m \<in> set (findall email_body text) \<Longrightarrow>
   candidates today text ms =
     map (\<lambda>m. \<lparr>customer_name = join '' '' (split (strip (name_for m (split_on (CHR 0x0A) text)))),
                email = lower m, subscription_tier = BASIC, signup_date = today\<rparr>)
         (filter (\<lambda>m. length (name_for m (split_on (CHR 0x0A) text)) \<le> 255) ms)"
proof (induction ms)
  case Nil
  then show ?case by simp
next
  case (Cons m ms)
  then have "m \<in> set (findall email_body text)" by simp
  from candidate_record [OF assms this] Cons show ?case
    by (simp add: not_less [symmetric])
qed

text \<open>
  C9, as the code has it.  For a current date of the calendar with a year of four
  digits and every text without the three characters whose title case is outside the
  8-bit range, the extractor returns one record per matched email, in the order of the
  matches and with duplicates kept, except that a candidate is dropped when its name
  is longer than 255 characters.  Each record has the email in lower case, tier Basic
  and the current date.  Its name comes from the first line of the text that contains
  the email text anywhere: the part of that line before the first occurrence of the
  email, trimmed, is title-cased when it is not empty and has at most three words, and
  the name is \<open>Unknown\<close> otherwise; the validator then collapses runs of whitespace in
  it.  The function is total: no exception escapes.
\<close>

theorem text_fallback_records:
  assumes "mk_date (year today) (month today) (day today) = Some today" and "1000 \<le> year today"
    and "list_all title_in_range text"
  shows "extract_from_text_with_regex today text =
           map (\<lambda>m. \<lparr>customer_name = join '' '' (split (strip (name_for m (split_on (CHR 0x0A) text)))),
                      email = lower m, subscription_tier = BASIC, signup_date = today\<rparr>)
               (filter (\<lambda>m. length (name_for m (split_on (CHR 0x0A) text)) \<le> 255)
                  (findall email_body text))
         \<and> name_for m (split_on (CHR 0x0A) text) =
             (case find (sublist m) (split_on (CHR 0x0A) text) of
                None \<Rightarrow> ''Unknown''
              | Some line \<Rightarrow>
                  (let w = strip (the (before_first m line))
                   in if w \<noteq> [] \<and> length (split w) \<le> 3 then title w else ''Unknown''))
         \<and> (before_first m line = Some h \<longrightarrow>
               (\<exists>t. line = h @ m @ t) \<and> (\<forall>h' t'. line = h' @ m @ t' \<longrightarrow> length h \<le> length h'))"
proof -
  have "extract_from_text_with_regex today text =
           map (\<lambda>m. \<lparr>customer_name = join '' '' (split (strip (name_for m (split_on (CHR 0x0A) text)))),
                      email = lower m, subscription_tier = BASIC, signup_date = today\<rparr>)
               (filter (\<lambda>m. length (name_for m (split_on (CHR 0x0A) text)) \<le> 255)
                  (findall email_body text))"
    unfolding extract_from_text_with_regex_def
    by (rule candidates_map [OF assms(1)]) simp
  moreover have "before_first m line = Some h \<longrightarrow>
               (\<exists>t. line = h @ m @ t) \<and> (\<forall>h' t'. line = h' @ m @ t' \<longrightarrow> length h \<le> length h')"
    using before_first_Some [of m line h] before_first_least [of m line h] by blast
  ultimately show ?thesis
    using name_for_find [of m "split_on (CHR 0x0A) text"] by blast
qed

theorem text_fallback_records_witness:
  "mk_date 2026 11 4 = Some \<lparr>year = 2026, month = 11, day = 4\<rparr> \<and> (1000::nat) \<le> 2026
   \<and> list_all title_in_range ''al  bo A@B.org''
   \<and> extract_from_text_with_regex \<lparr>year = 2026, month = 11, day = 4\<rparr> ''al  bo A@B.org'' =
       [\<lparr>customer_name = ''Al Bo'', email = ''a@b.org'', subscription_tier = BASIC,
          signup_date = \<lparr>year = 2026, month = 11, day = 4\<rparr>\<rparr>]"
proof -
  let ?today = "\<lparr>year = 2026, month = 11, day = 4\<rparr>"
  let ?text = "''al  bo A@B.org''"
  have h0: "mk_date 2026 11 4 = Some ?today"
    by code_simp
  then have h1: "mk_date (year ?today) (month ?today) (day ?today) = Some ?today"
    by simp
  have h2: "1000 \<le> year ?today"
    by simp
  have h3: "list_all title_in_range ?text"
    by (simp add: title_in_range_def code_def)
  have ev: "map (\<lambda>m. \<lparr>customer_name = join '' '' (split (strip (name_for m (split_on (CHR 0x0A) ?text)))),
                      email = lower m, subscription_tier = BASIC, signup_date = ?today\<rparr>)
               (filter (\<lambda>m. length (name_for m (split_on (CHR 0x0A) ?text)) \<le> 255)
                  (findall email_body ?text)) =
       [\<lparr>customer_name = ''Al Bo'', email = ''a@b.org'', subscription_tier = BASIC,
          signup_date = ?today\<rparr>]"
    by code_simp
  have "extract_from_text_with_regex ?today ?text =
       [\<lparr>customer_name = ''Al Bo'', email = ''a@b.org'', subscription_tier = BASIC,
          signup_date = ?today\<rparr>]"
    by (rule trans [OF text_fallback_records [OF h1 h2 h3, THEN conjunct1] ev])
  with h0 h3 show ?thesis
    by (intro conjI) simp_all
qed

text \<open>
  The claim of C9 that a candidate is named from the text before the email on the line
  of its match fails for a repeated email: with \<open>Al a@b.co\<close> on the first line and
  \<open>Bo a@b.co\<close> on the second, both candidates are named \<open>Al\<close>.
\<close>

theorem repeated_email_named_from_first_line:
  "findall email_body ''Al a@b.co\<newline>Bo a@b.co'' = [''a@b.co'', ''a@b.co'']
   \<and> split_on (CHR 0x0A) ''Al a@b.co\<newline>Bo a@b.co'' = [''Al a@b.co'', ''Bo a@b.co'']
   \<and> map customer_name (extract_from_text_with_regex \<lparr>year = 2026, month = 11, day = 4\<rparr>
         ''Al a@b.co\<newline>Bo a@b.co'') = [''Al'', ''Al'']"
proof -
  let ?today = "\<lparr>year = 2026, month = 11, day = 4\<rparr>"
  let ?text = "''Al a@b.co\<newline>Bo a@b.co''"
  have f: "findall email_body ?text = [''a@b.co'', ''a@b.co'']"
    by code_simp
  have l: "split_on (CHR 0x0A) ?text = [''Al a@b.co'', ''Bo a@b.co'']"
    by code_simp
  have "mk_date 2026 11 4 = Some ?today"
    by code_simp
  then have d: "mk_date (year ?today) (month ?today) (day ?today) = Some ?today"
    by simp
  have n: "name_for ''a@b.co'' [''Al a@b.co'', ''Bo a@b.co''] = ''Al''"
    by code_simp
  have j: "join '' '' (split (strip ''Al'')) = ''Al''"
    by code_simp
  have "extract_from_text_with_regex ?today ?text =
      map (\<lambda>m. \<lparr>customer_name = join '' '' (split (strip (name_for m (split_on (CHR 0x0A) ?text)))),
                      email = lower m, subscription_tier = BASIC, signup_date = ?today\<rparr>)
               (filter (\<lambda>m. length (name_for m (split_on (CHR 0x0A) ?text)) \<le> 255)
                  (findall email_body ?text))"
    unfolding extract_from_text_with_regex_def
    by (rule candidates_map [OF d]) simp
  then have "map customer_name (extract_from_text_with_regex ?today ?text) = [''Al'', ''Al'']"
    unfolding f l by (simp add: n j del: name_for.simps)
  with f l show ?thesis by blast
qed

end
